theory Spec2Isabelle
  imports Main "HOL-Library.Word"
begin

unbundle bit_operations_syntax

section \<open>Data shared by \<open>entr.c\<close> and the inotify shim\<close>

text \<open>
  \<open>struct watch_file { char *fn; int fd; }\<close> of \<open>entr.c\<close>; the shim calls the same
  two fields through the type name \<open>WatchFile\<close>. A pointer to one of these structs
  is modelled by the index of the struct in the registry array \<open>files\<close>, and the
  null pointer by \<open>None\<close>.
\<close>

record watch_file_t =
  fn :: string
  fd :: int

type_synonym WatchFile = watch_file_t

text \<open>
  \<open>struct kevent\<close>. The field \<open>filter\<close> is called \<open>filter_k\<close> here. \<open>ident\<close> only
  ever receives an \<open>int\<close> (a descriptor) and is only compared with an \<open>int\<close>, and
  the conversion of \<open>int\<close> to \<open>uintptr_t\<close> is injective, so it is kept as an \<open>int\<close>.
\<close>

record kevent =
  ident :: int
  filter_k :: int
  flags :: "16 word"
  fflags :: "32 word"
  data :: int
  udata :: "nat option"

text \<open>
  Constants of \<open><sys/event.h>\<close> and \<open><sys/inotify.h>\<close>. Neither header is part of the
  sources at hand; the values are the ones of the BSD and Linux headers.
\<close>

definition EVFILT_READ :: int where "EVFILT_READ = -1"
definition EVFILT_VNODE :: int where "EVFILT_VNODE = -4"

definition EV_ADD :: "16 word" where "EV_ADD = 0x0001"
definition EV_DELETE :: "16 word" where "EV_DELETE = 0x0002"
definition EV_CLEAR :: "16 word" where "EV_CLEAR = 0x0020"

definition NOTE_DELETE :: "32 word" where "NOTE_DELETE = 0x0001"
definition NOTE_WRITE :: "32 word" where "NOTE_WRITE = 0x0002"
definition NOTE_EXTEND :: "32 word" where "NOTE_EXTEND = 0x0004"
definition NOTE_ATTRIB :: "32 word" where "NOTE_ATTRIB = 0x0008"
definition NOTE_RENAME :: "32 word" where "NOTE_RENAME = 0x0020"

definition IN_MODIFY :: "32 word" where "IN_MODIFY = 0x00000002"
definition IN_ATTRIB :: "32 word" where "IN_ATTRIB = 0x00000004"
definition IN_CLOSE_WRITE :: "32 word" where "IN_CLOSE_WRITE = 0x00000008"
definition IN_CREATE :: "32 word" where "IN_CREATE = 0x00000100"
definition IN_DELETE_SELF :: "32 word" where "IN_DELETE_SELF = 0x00000400"
definition IN_MOVE_SELF :: "32 word" where "IN_MOVE_SELF = 0x00000800"
definition IN_IGNORED :: "32 word" where "IN_IGNORED = 0x00008000"

definition EINTR :: int where "EINTR = 4"
definition ENOENT :: int where "ENOENT = 2"
definition STDIN_FILENO :: int where "STDIN_FILENO = 0"

section \<open>The inotify shim (\<open>missing/kqueue_inotify.c\<close>)\<close>

subsection \<open>Registry lookup\<close>

text \<open>
  \<open>file_by_descriptor\<close>: the scan \<open>for (i=0; files[i] != NULL; i++)\<close> over the
  null-terminated registry, returning the first entry whose \<open>fd\<close> equals \<open>wd\<close>.
  \<open>scan_files fs i wd\<close> is the loop standing at index \<open>i\<close> with \<open>fs\<close> the entries
  from there to the terminator.
\<close>

fun scan_files :: "WatchFile list \<Rightarrow> nat \<Rightarrow> int \<Rightarrow> nat option" where
  "scan_files [] i wd = None"
| "scan_files (f # fs) i wd = (if fd f = wd then Some i else scan_files fs (Suc i) wd)"

definition file_by_descriptor :: "WatchFile list \<Rightarrow> int \<Rightarrow> nat option" where
  "file_by_descriptor files wd = scan_files files 0 wd"

subsection \<open>Registration requests (\<open>nchanges > 0\<close>)\<close>

datatype shim_error = NullDeref | BufferOverrun

text \<open>
  The body of the loop over the change list, for the entry at \<open>n = 0\<close>, which is the
  only entry \<open>entr.c\<close> ever passes (\<open>nchanges = 1\<close>). \<open>wd_ret\<close> is what
  \<open>inotify_add_watch\<close> returns if it is called. The result is the registry and the
  value \<open>kevent\<close> returns: \<open>-1\<close> when the watch cannot be added, otherwise
  \<open>nchanges - ignored\<close>. Writing \<open>file->fd\<close> through a null \<open>udata\<close>, or through one
  that is no registry entry, is \<open>NullDeref\<close>; so is, in the \<open>EV_ADD\<close> branch, reading
  \<open>file->fn\<close> for \<open>inotify_add_watch\<close>, which comes before the test of \<open>wd\<close>.
\<close>

definition set_fd :: "WatchFile list \<Rightarrow> nat option \<Rightarrow> int \<Rightarrow> shim_error + WatchFile list" where
  "set_fd files u v =
     (case u of
        None \<Rightarrow> Inl NullDeref
      | Some i \<Rightarrow> if i < length files then Inr (files[i := (files ! i)\<lparr>fd := v\<rparr>])
                  else Inl NullDeref)"

definition kevent_change :: "WatchFile list \<Rightarrow> kevent \<Rightarrow> int \<Rightarrow> shim_error + (WatchFile list \<times> int)" where
  "kevent_change files kev wd_ret =
     (if filter_k kev \<noteq> EVFILT_VNODE then Inr (files, 1)
      else if flags kev AND EV_DELETE \<noteq> 0 then
        (case set_fd files (udata kev) (-1) of
           Inl e \<Rightarrow> Inl e
         | Inr files' \<Rightarrow> Inr (files', 1))
      else if flags kev AND EV_ADD \<noteq> 0 then
        (case set_fd files (udata kev) wd_ret of
           Inl e \<Rightarrow> Inl e
         | Inr files' \<Rightarrow> if wd_ret < 0 then Inr (files, -1) else Inr (files', 1))
      else Inr (files, 0))"

text \<open>A sequence of such calls, each with its own \<open>inotify_add_watch\<close> result.\<close>

fun kevent_changes :: "WatchFile list \<Rightarrow> (kevent \<times> int) list \<Rightarrow> shim_error + WatchFile list" where
  "kevent_changes files [] = Inr files"
| "kevent_changes files ((kev, wd_ret) # cs) =
     (case kevent_change files kev wd_ret of
        Inl e \<Rightarrow> Inl e
      | Inr (files', r) \<Rightarrow> kevent_changes files' cs)"

subsection \<open>The wait path (\<open>nchanges = 0\<close>)\<close>

text \<open>
  One \<open>struct inotify_event\<close> of the read buffer. The buffer is modelled by the list
  of the records laid out in the \<open>len\<close> bytes that \<open>read\<close> returned, so that
  \<open>pos += EVENT_SIZE + iev->len\<close> is the step to the next list element and
  \<open>pos < len\<close> is "the list is not empty". Only \<open>wd\<close> and \<open>mask\<close> are used.
\<close>

record inotify_event =
  wd :: int
  mask :: "32 word"

text \<open>Lines 141 to 146: the conversion of \<open>iev->mask\<close>, one \<open>|=\<close> after the other.\<close>

definition convert_mask :: "32 word \<Rightarrow> 32 word" where
  "convert_mask m =
     (let f0 = 0;
          f1 = (if m AND IN_DELETE_SELF \<noteq> 0 then f0 OR NOTE_DELETE else f0);
          f2 = (if m AND IN_CLOSE_WRITE \<noteq> 0 then f1 OR NOTE_WRITE else f1);
          f3 = (if m AND IN_CREATE \<noteq> 0 then f2 OR NOTE_WRITE else f2);
          f4 = (if m AND IN_MOVE_SELF \<noteq> 0 then f3 OR NOTE_RENAME else f3);
          f5 = (if m AND IN_ATTRIB \<noteq> 0 then f4 OR NOTE_ATTRIB else f4)
      in f5)"

text \<open>
  Lines 137 to 160: the body of the inner \<open>while\<close> for one record, on the pair of the
  counter \<open>n\<close> and the caller's array \<open>eventlist\<close>.
\<close>

definition convert_record :: "WatchFile list \<Rightarrow> inotify_event \<Rightarrow> nat \<times> kevent list \<Rightarrow> nat \<times> kevent list" where
  "convert_record files iev s =
     (case s of (n, eventlist) \<Rightarrow>
        let fflags0 = convert_mask (mask iev) in
        if fflags0 = 0 then (n, eventlist)
        else
          let merge = (n > 0 \<and> ident (eventlist ! (n - 1)) = wd iev);
              n1 = (if merge then n - 1 else n);
              fflags1 = (if merge then fflags0 OR fflags (eventlist ! n1) else fflags0);
              u = file_by_descriptor files (wd iev);
              eventlist1 = eventlist[n1 := \<lparr>ident = wd iev, filter_k = EVFILT_VNODE, flags = 0,
                                          fflags = fflags1, data = 0, udata = u\<rparr>]
          in (if u \<noteq> None then Suc n1 else n1, eventlist1))"

text \<open>
  The inner loop \<open>while ((pos < len) && (n < nevents))\<close>. The array argument carries
  its capacity: \<open>nevents\<close> is \<open>length eventlist\<close>, as at the call sites
  \<open>kevent(kq, NULL, 0, evList, 32, ...)\<close> with \<open>struct kevent evList[32]\<close>.
\<close>

fun read_records :: "WatchFile list \<Rightarrow> inotify_event list \<Rightarrow> nat \<times> kevent list \<Rightarrow> nat \<times> kevent list" where
  "read_records files [] s = s"
| "read_records files (iev # buf) s =
     (if fst s < length (snd s) then read_records files buf (convert_record files iev s)
      else s)"

text \<open>
  What the environment answers in one round of the outer loop: the value of \<open>poll\<close>,
  the \<open>POLLIN\<close> bits it leaves in \<open>pfd[0].revents\<close> (the inotify descriptor) and
  \<open>pfd[1].revents\<close> (standard input), and what \<open>read\<close> on the inotify descriptor
  does if it is called in that round.
\<close>

datatype read_result = ReadOk "inotify_event list" | ReadFail int

record poll_round =
  pret :: int
  pin_kq :: bool
  pin_stdin :: bool
  rd :: read_result

text \<open>
  The state of a wait call: \<open>n\<close>, \<open>eventlist\<close> and the lines \<open>perror\<close> has written
  to the diagnostic stream.
\<close>

type_synonym wait_state = "nat \<times> kevent list \<times> string list"

datatype round_end = Continue wait_state | Break wait_state | Overrun

definition stdin_event :: kevent where
  "stdin_event = \<lparr>ident = STDIN_FILENO, filter_k = EVFILT_READ, flags = 0, fflags = 0,
                  data = 0, udata = None\<rparr>"

text \<open>
  Lines 163 to 173. The store to \<open>eventlist[n]\<close> is not guarded by \<open>n < nevents\<close>;
  with a full array it lands behind the caller's array, which is \<open>Overrun\<close>.
\<close>

definition stdin_ready :: "poll_round \<Rightarrow> wait_state \<Rightarrow> round_end" where
  "stdin_ready p s =
     (case s of (n, eventlist, diag) \<Rightarrow>
        if pin_stdin p then
          (if n < length eventlist then Break (Suc n, eventlist[n := stdin_event], diag)
           else Overrun)
        else Continue (n, eventlist, diag))"

text \<open>
  Lines 126 to 173: one pass through the body of the \<open>do\<close> loop. \<open>continue\<close> after
  \<open>EINTR\<close> jumps to the loop condition, past the test of standard input.
\<close>

definition round_body :: "WatchFile list \<Rightarrow> poll_round \<Rightarrow> wait_state \<Rightarrow> round_end" where
  "round_body files p s =
     (case s of (n, eventlist, diag) \<Rightarrow>
        if pin_kq p then
          (case rd p of
             ReadFail e \<Rightarrow>
               if e = EINTR then Continue (n, eventlist, diag)
               else stdin_ready p (n, eventlist, diag @ [''read''])
           | ReadOk buf \<Rightarrow>
               (case read_records files buf (n, eventlist) of
                  (n', eventlist') \<Rightarrow> stdin_ready p (n', eventlist', diag)))
        else stdin_ready p (n, eventlist, diag))"

text \<open>
  The loop condition \<open>poll(pfd, 2, 50) > 0\<close> followed by the next pass. The list is
  the script of the rounds in which \<open>poll\<close> is called; behind its end \<open>poll\<close> times
  out and returns 0.
\<close>

fun wait_rounds :: "WatchFile list \<Rightarrow> poll_round list \<Rightarrow> wait_state \<Rightarrow> shim_error + wait_state" where
  "wait_rounds files [] s = Inr s"
| "wait_rounds files (p # ps) s =
     (if pret p > 0 then
        (case round_body files p s of
           Continue s' \<Rightarrow> wait_rounds files ps s'
         | Break s' \<Rightarrow> Inr s'
         | Overrun \<Rightarrow> Inl BufferOverrun)
      else Inr s)"

text \<open>
  \<open>kevent\<close> with \<open>nchanges = 0\<close>. With a timeout the first \<open>poll\<close> is the one of line
  121, and its answer 0 returns at once; a failed \<open>poll\<close> leaves the zeroed
  \<open>revents\<close> of \<open>calloc\<close> untouched. Without a timeout the first pass runs on those
  zeroed \<open>revents\<close> and does nothing.
\<close>

definition no_revents :: "poll_round \<Rightarrow> poll_round" where
  "no_revents p = p\<lparr>pin_kq := False, pin_stdin := False\<rparr>"

definition kevent_wait :: "WatchFile list \<Rightarrow> bool \<Rightarrow> kevent list \<Rightarrow> poll_round list \<Rightarrow> shim_error + wait_state" where
  "kevent_wait files has_timeout eventlist script =
     (if has_timeout then
        (case script of
           [] \<Rightarrow> Inr (0, eventlist, [])
         | p # ps \<Rightarrow>
             if pret p = 0 then Inr (0, eventlist, [])
             else (case round_body files (if pret p < 0 then no_revents p else p) (0, eventlist, []) of
                     Continue s' \<Rightarrow> wait_rounds files ps s'
                   | Break s' \<Rightarrow> Inr s'
                   | Overrun \<Rightarrow> Inl BufferOverrun))
      else wait_rounds files script (0, eventlist, []))"

text \<open>The events a call hands back: the first \<open>n\<close> entries of the array.\<close>

definition returned_events :: "wait_state \<Rightarrow> kevent list" where
  "returned_events s = (case s of (n, eventlist, diag) \<Rightarrow> take n eventlist)"


text \<open>
  What the loop keeps true of the first \<open>n\<close> entries of the array while it only
  converts inotify records: each is a \<open>EVFILT_VNODE\<close> event with a flag set, whose
  tag is the registry entry that the lookup of its \<open>ident\<close> finds.
\<close>

definition vnode_tagged :: "WatchFile list \<Rightarrow> kevent \<Rightarrow> bool" where
  "vnode_tagged files e \<longleftrightarrow>
     filter_k e = EVFILT_VNODE \<and> flags e = 0 \<and> data e = 0 \<and> fflags e \<noteq> 0 \<and>
     file_by_descriptor files (ident e) \<noteq> None \<and>
     udata e = file_by_descriptor files (ident e)"

definition produced_ok :: "WatchFile list \<Rightarrow> nat \<times> kevent list \<Rightarrow> bool" where
  "produced_ok files s \<longleftrightarrow>
     fst s \<le> length (snd s) \<and> (\<forall>k<fst s. vnode_tagged files (snd s ! k))"

definition final_ok :: "WatchFile list \<Rightarrow> wait_state \<Rightarrow> bool" where
  "final_ok files s \<longleftrightarrow>
     (case s of (n, evl, diag) \<Rightarrow>
        produced_ok files (n, evl) \<or>
        (0 < n \<and> n \<le> length evl \<and> produced_ok files (n - 1, evl) \<and>
         evl ! (n - 1) = stdin_event))"

section \<open>The watch manager and the dispatch loop (\<open>entr.c\<close>)\<close>

subsection \<open>System calls\<close>

text \<open>
  The calls \<open>entr.c\<close> makes are recorded in a trace, in order. \<open>KeventAdd d i\<close> is
  the registering call \<open>kevent(kq, &evSet, 1, NULL, 0, NULL)\<close> with \<open>ident = d\<close>
  and \<open>udata\<close> the registry entry \<open>i\<close>; \<open>KeventWait\<close> is the blocking call of the
  loop and \<open>KeventDrain\<close> the call with the 100 ns timeout that follows the command;
  \<open>RunScript\<close> is the call through the pointer \<open>run_script\<close>. \<open>entr.c\<close> is written
  against \<open><sys/event.h>\<close>: the registering call is the one of \<open>kqueue(2)\<close>, which
  takes the change list as \<open>const\<close> and leaves the registry entry as it is.
\<close>

datatype action =
    SysOpen string
  | SysUsleep nat
  | SysClose int
  | KeventAdd int nat
  | KeventWait
  | KeventDrain
  | RunScript
  | SysWrite int string
  | SysFsync int

text \<open>
  \<open>err(eval, fmt, ...)\<close> ends the process: \<open>Exit\<close> carries the exit status and the
  formatted message (without the program name and the \<open>strerror\<close> text that \<open>err\<close>
  adds around it). \<open>Segfault\<close> is a read or write through a null or wild pointer.
\<close>

datatype failure = Exit int string | Segfault

text \<open>
  The environment: what the \<open>k\<close>-th call of each kind returns, and the value it
  stores in \<open>errno\<close> if it stores one. The waiting and draining \<open>kevent\<close> calls
  answer with the events they write to the front of the array (\<open>None\<close>: the
  call returns \<open>-1\<close>).
\<close>

record env =
  sys_open :: "nat \<Rightarrow> int \<times> int option"
  sys_close :: "nat \<Rightarrow> int \<times> int option"
  sys_kevent_add :: "nat \<Rightarrow> int \<times> int option"
  sys_kevent_wait :: "nat \<Rightarrow> kevent list option"
  sys_kevent_drain :: "nat \<Rightarrow> kevent list"

text \<open>
  The state of the process: the registry (\<open>files\<close> of \<open>main\<close>), the global \<open>fifo\<close>,
  \<open>errno\<close>, the trace, and how many calls of each kind have been made.
\<close>

record world =
  files_w :: "watch_file_t list"
  fifo :: watch_file_t
  errno :: int
  trace :: "action list"
  n_open :: nat
  n_close :: nat
  n_add :: nat
  n_wait :: nat
  n_drain :: nat

definition set_errno :: "int option \<Rightarrow> world \<Rightarrow> world" where
  "set_errno eo w = (case eo of None \<Rightarrow> w | Some e \<Rightarrow> w\<lparr>errno := e\<rparr>)"

definition open_call :: "env \<Rightarrow> string \<Rightarrow> world \<Rightarrow> int \<times> world" where
  "open_call E path w =
     (case sys_open E (n_open w) of (r, eo) \<Rightarrow>
        (r, set_errno eo (w\<lparr>n_open := Suc (n_open w), trace := trace w @ [SysOpen path]\<rparr>)))"

definition usleep_call :: "nat \<Rightarrow> world \<Rightarrow> world" where
  "usleep_call us w = w\<lparr>trace := trace w @ [SysUsleep us]\<rparr>"

definition close_call :: "env \<Rightarrow> int \<Rightarrow> world \<Rightarrow> int \<times> world" where
  "close_call E d w =
     (case sys_close E (n_close w) of (r, eo) \<Rightarrow>
        (r, set_errno eo (w\<lparr>n_close := Suc (n_close w), trace := trace w @ [SysClose d]\<rparr>)))"

definition kevent_add_call :: "env \<Rightarrow> int \<Rightarrow> nat \<Rightarrow> world \<Rightarrow> int \<times> world" where
  "kevent_add_call E d i w =
     (case sys_kevent_add E (n_add w) of (r, eo) \<Rightarrow>
        (r, set_errno eo (w\<lparr>n_add := Suc (n_add w), trace := trace w @ [KeventAdd d i]\<rparr>)))"

definition kevent_wait_call :: "env \<Rightarrow> world \<Rightarrow> kevent list option \<times> world" where
  "kevent_wait_call E w =
     (sys_kevent_wait E (n_wait w), w\<lparr>n_wait := Suc (n_wait w), trace := trace w @ [KeventWait]\<rparr>)"

definition kevent_drain_call :: "env \<Rightarrow> world \<Rightarrow> kevent list \<times> world" where
  "kevent_drain_call E w =
     (sys_kevent_drain E (n_drain w), w\<lparr>n_drain := Suc (n_drain w), trace := trace w @ [KeventDrain]\<rparr>)"

definition run_script :: "world \<Rightarrow> world" where
  "run_script w = w\<lparr>trace := trace w @ [RunScript]\<rparr>"

text \<open>
  A C string is the array of its characters and the terminating zero byte.
  \<open>write(d, buf, count)\<close> sends the first \<open>count\<close> bytes of the array; its result is
  not looked at by the program.
\<close>

definition cstr :: "string \<Rightarrow> string" where
  "cstr s = s @ [CHR 0x00]"

definition strlen :: "string \<Rightarrow> nat" where
  "strlen buf = length (takeWhile (\<lambda>c. c \<noteq> CHR 0x00) buf)"

definition write_call :: "int \<Rightarrow> string \<Rightarrow> nat \<Rightarrow> world \<Rightarrow> world" where
  "write_call d buf count w = w\<lparr>trace := trace w @ [SysWrite d (take count buf)]\<rparr>"

definition fsync_call :: "int \<Rightarrow> world \<Rightarrow> world" where
  "fsync_call d w = w\<lparr>trace := trace w @ [SysFsync d]\<rparr>"

text \<open>
  \<open>exit\<close> hands the low eight bits of its argument to the parent. \<open>strerror\<close> of
  the C library gives \<open>"Success"\<close> for 0 only.
\<close>

definition exit_status :: "int \<Rightarrow> int" where
  "exit_status v = v mod 256"

definition strerror_success :: "int \<Rightarrow> bool" where
  "strerror_success e \<longleftrightarrow> e = 0"

subsection \<open>\<open>watch_file\<close>\<close>

text \<open>
  The loop \<open>for (i=0; i < 20; i++)\<close> of \<open>watch_file\<close>, with the number of passes
  still allowed as the first argument after the environment (20 at the start), on
  the registry entry \<open>i\<close>.
\<close>

fun open_retry :: "env \<Rightarrow> nat \<Rightarrow> nat \<Rightarrow> world \<Rightarrow> world" where
  "open_retry E 0 i w = w"
| "open_retry E (Suc m) i w =
     (case open_call E (fn (files_w w ! i)) w of (r, w1) \<Rightarrow>
        let w2 = w1\<lparr>files_w := (files_w w1)[i := (files_w w1 ! i)\<lparr>fd := r\<rparr>]\<rparr> in
        if r = -1 then open_retry E m i (usleep_call 100000 w2) else w2)"

definition cannot_open_msg :: "string \<Rightarrow> string" where
  "cannot_open_msg path = ''cannot open `'' @ path @ [CHR 0x27]"

definition watch_file :: "env \<Rightarrow> nat \<Rightarrow> world \<Rightarrow> (failure \<times> world) + world" where
  "watch_file E i w =
     (let w1 = open_retry E 20 i w in
      if fd (files_w w1 ! i) = -1 then
        Inl (Exit (exit_status (errno w1)) (cannot_open_msg (fn (files_w w1 ! i))), w1)
      else
        (case kevent_add_call E (fd (files_w w1 ! i)) i w1 of (r, w2) \<Rightarrow>
           if r = -1 \<and> \<not> strerror_success (errno w2) then
             Inl (Exit 1 ''failed to register VNODE event list'', w2)
           else Inr w2))"

subsection \<open>\<open>watch_loop\<close>\<close>

text \<open>Lines 229 to 234: a deleted file is closed and watched again.\<close>

definition reopen_deleted :: "env \<Rightarrow> kevent \<Rightarrow> world \<Rightarrow> (failure \<times> world) + world" where
  "reopen_deleted E ev w =
     (if fflags ev AND NOTE_DELETE \<noteq> 0 then
        (case udata ev of
           None \<Rightarrow> Inl (Segfault, w)
         | Some i \<Rightarrow>
             if i < length (files_w w) then
               (case close_call E (fd (files_w w ! i)) w of (r, w1) \<Rightarrow>
                  if r = -1 then Inl (Exit (exit_status (errno w1)) ''unable to close file'', w1)
                  else watch_file E i w1)
             else Inl (Segfault, w))
      else Inr w)"

definition qualifying :: "32 word \<Rightarrow> bool" where
  "qualifying ff \<longleftrightarrow>
     ff AND NOTE_DELETE \<noteq> 0 \<or> ff AND NOTE_WRITE \<noteq> 0 \<or> ff AND NOTE_EXTEND \<noteq> 0"

text \<open>
  A \<open>kevent\<close> call that returns events writes them to the front of the array it was
  given, at most as many as the array holds, and leaves the rest as it was.
\<close>

definition store_events :: "kevent list \<Rightarrow> kevent list \<Rightarrow> kevent list" where
  "store_events evs evList = take (length evList) evs @ drop (length evs) evList"

text \<open>
  Lines 235 to 247: the delivery. In command mode (\<open>fifo.fd\<close> is 0) the command is
  run and \<open>evList\<close> is handed to the draining call, whose result is thrown away; in
  FIFO mode the name, then two bytes of the literal \<open>"\n"\<close>, are written.
\<close>

definition deliver :: "env \<Rightarrow> kevent \<Rightarrow> kevent list \<Rightarrow> world \<Rightarrow> (failure \<times> world) + (kevent list \<times> world)" where
  "deliver E ev evList w =
     (if qualifying (fflags ev) then
        (if fd (fifo w) = 0 then
           (case kevent_drain_call E (run_script w) of
              (evs, w2) \<Rightarrow> Inr (store_events evs evList, w2))
         else
           (case udata ev of
              None \<Rightarrow> Inl (Segfault, w)
            | Some i \<Rightarrow>
                if i < length (files_w w) then
                  (let name = cstr (fn (files_w w ! i));
                       w1 = write_call (fd (fifo w)) name (strlen name) w;
                       w2 = write_call (fd (fifo w)) (cstr [CHR 0x0A]) 2 w1;
                       w3 = fsync_call (fd (fifo w)) w2
                   in Inr (evList, w3))
                else Inl (Segfault, w)))
      else Inr (evList, w))"

text \<open>The body of the \<open>for\<close> loop for the event \<open>evList[i]\<close>.\<close>

definition dispatch_event :: "env \<Rightarrow> kevent \<Rightarrow> kevent list \<Rightarrow> world \<Rightarrow> (failure \<times> world) + (kevent list \<times> world)" where
  "dispatch_event E ev evList w =
     (case reopen_deleted E ev w of
        Inl x \<Rightarrow> Inl x
      | Inr w1 \<Rightarrow> deliver E ev evList w1)"

text \<open>
  \<open>for (i=0; i<nev; i++)\<close>. \<open>nev\<close> is fixed before the loop, while \<open>evList\<close> may be
  written again by the draining call inside the body.
\<close>

function for_events :: "env \<Rightarrow> nat \<Rightarrow> nat \<Rightarrow> kevent list \<Rightarrow> world \<Rightarrow> (failure \<times> world) + (kevent list \<times> world)" where
  "for_events E i nev evList w =
     (if i < nev then
        (case dispatch_event E (evList ! i) evList w of
           Inl x \<Rightarrow> Inl x
         | Inr (evList', w') \<Rightarrow> for_events E (Suc i) nev evList' w')
      else Inr (evList, w))"
  by pat_completeness auto
termination
  by (relation "measure (\<lambda>(E, i, nev, evList, w). nev - i)") auto

text \<open>
  One pass of the \<open>do\<close> loop, which is all of \<open>watch_loop(kq, 1, argv)\<close>: the wait,
  then the dispatch of the \<open>nev\<close> events it returned.
\<close>

definition watch_loop_once :: "env \<Rightarrow> kevent list \<Rightarrow> world \<Rightarrow> (failure \<times> world) + (kevent list \<times> world)" where
  "watch_loop_once E evList w =
     (case kevent_wait_call E w of
        (None, w1) \<Rightarrow> Inl (Exit 1 ''kevent error'', w1)
      | (Some evs, w1) \<Rightarrow>
          for_events E 0 (min (length evs) (length evList)) (store_events evs evList) w1)"

text \<open>What an observer sees: the command runs, and the bytes sent to a descriptor.\<close>

definition run_count :: "action list \<Rightarrow> nat" where
  "run_count tr = length (filter (\<lambda>a. a = RunScript) tr)"

fun written :: "int \<Rightarrow> action list \<Rightarrow> string" where
  "written d [] = []"
| "written d (SysWrite d' bytes # tr) = (if d' = d then bytes @ written d tr else written d tr)"
| "written d (a # tr) = written d tr"


text \<open>
  The state after one pass of the loop of \<open>watch_file\<close> in which \<open>open\<close> failed
  (the pass ends with \<open>usleep\<close>), and after the pass in which it succeeded.
\<close>

definition attempt_failed :: "env \<Rightarrow> nat \<Rightarrow> world \<Rightarrow> world" where
  "attempt_failed E i w =
     w\<lparr>files_w := (files_w w)[i := (files_w w ! i)\<lparr>fd := -1\<rparr>],
       errno := (case snd (sys_open E (n_open w)) of None \<Rightarrow> errno w | Some e \<Rightarrow> e),
       trace := trace w @ [SysOpen (fn (files_w w ! i)), SysUsleep 100000],
       n_open := Suc (n_open w)\<rparr>"

definition attempt_ok :: "env \<Rightarrow> nat \<Rightarrow> world \<Rightarrow> world" where
  "attempt_ok E i w =
     w\<lparr>files_w := (files_w w)[i := (files_w w ! i)\<lparr>fd := fst (sys_open E (n_open w))\<rparr>],
       errno := (case snd (sys_open E (n_open w)) of None \<Rightarrow> errno w | Some e \<Rightarrow> e),
       trace := trace w @ [SysOpen (fn (files_w w ! i))],
       n_open := Suc (n_open w)\<rparr>"

text \<open>What the loop of \<open>watch_file\<close> on the entry \<open>i\<close> never touches.\<close>

definition same_frame :: "nat \<Rightarrow> world \<Rightarrow> world \<Rightarrow> bool" where
  "same_frame i w w' \<longleftrightarrow>
     fifo w' = fifo w \<and> n_close w' = n_close w \<and> n_add w' = n_add w \<and>
     n_wait w' = n_wait w \<and> n_drain w' = n_drain w \<and>
     length (files_w w') = length (files_w w) \<and>
     map fn (files_w w') = map fn (files_w w) \<and>
     (\<forall>j. j \<noteq> i \<longrightarrow> files_w w' ! j = files_w w ! j)"

section \<open>Properties of the shim\<close>

lemmas shim_consts = EVFILT_READ_def EVFILT_VNODE_def EV_ADD_def EV_DELETE_def EV_CLEAR_def
  NOTE_DELETE_def NOTE_WRITE_def NOTE_EXTEND_def NOTE_ATTRIB_def NOTE_RENAME_def IN_MODIFY_def
  IN_ATTRIB_def IN_CLOSE_WRITE_def IN_CREATE_def IN_DELETE_SELF_def IN_MOVE_SELF_def
  IN_IGNORED_def EINTR_def ENOENT_def STDIN_FILENO_def

lemmas shim_defs = kevent_wait_def round_body_def stdin_ready_def convert_record_def
  convert_mask_def file_by_descriptor_def stdin_event_def returned_events_def

subsection \<open>The lookup\<close>

lemma scan_files_ge: "scan_files fs i w = Some j \<Longrightarrow> i \<le> j"
  by (induction fs arbitrary: i) (auto split: if_splits dest: Suc_leD)

lemma scan_files_Some_iff:
  "scan_files fs i w = Some (i + j) \<longleftrightarrow>
     j < length fs \<and> fd (fs ! j) = w \<and> (\<forall>k<j. fd (fs ! k) \<noteq> w)"
proof (induction fs arbitrary: i j)
  case Nil
  then show ?case by simp
next
  case (Cons f fs)
  show ?case
  proof (cases j)
    case 0
    have "scan_files fs (Suc i) w \<noteq> Some i"
      using scan_files_ge [of fs "Suc i" w i] by auto
    then show ?thesis using 0 by auto
  next
    case (Suc j')
    have "scan_files fs (Suc i) w = Some (Suc i + j') \<longleftrightarrow>
            j' < length fs \<and> fd (fs ! j') = w \<and> (\<forall>k<j'. fd (fs ! k) \<noteq> w)"
      by (rule Cons.IH)
    then show ?thesis using Suc by (auto simp: less_Suc_eq_0_disj)
  qed
qed

lemma scan_files_None_iff: "scan_files fs i w = None \<longleftrightarrow> (\<forall>f\<in>set fs. fd f \<noteq> w)"
  by (induction fs arbitrary: i) auto

lemma file_by_descriptor_Some_iff:
  "file_by_descriptor files w = Some j \<longleftrightarrow>
     j < length files \<and> fd (files ! j) = w \<and> (\<forall>k<j. fd (files ! k) \<noteq> w)"
  using scan_files_Some_iff [of files 0 w j] by (simp add: file_by_descriptor_def)

lemma file_by_descriptor_None_iff:
  "file_by_descriptor files w = None \<longleftrightarrow> (\<forall>f\<in>set files. fd f \<noteq> w)"
  by (simp add: file_by_descriptor_def scan_files_None_iff)

subsection \<open>What the conversion loop keeps true\<close>

lemma convert_record_length:
  "length (snd (convert_record files iev s)) = length (snd s)"
  by (cases s) (simp add: convert_record_def Let_def)

lemma convert_record_zero:
  "convert_mask (mask iev) = 0 \<Longrightarrow> convert_record files iev s = s"
  by (cases s) (simp add: convert_record_def)

lemma convert_record_merge:
  assumes ok: "produced_ok files (n, evl)" and nz: "convert_mask (mask iev) \<noteq> 0"
    and pos: "0 < n" and same: "ident (evl ! (n - 1)) = wd iev"
  shows "convert_record files iev (n, evl) =
           (n, evl[n - 1 := (evl ! (n - 1))\<lparr>fflags := convert_mask (mask iev) OR fflags (evl ! (n - 1))\<rparr>])"
proof -
  from ok pos have t: "vnode_tagged files (evl ! (n - 1))"
    by (simp add: produced_ok_def)
  from t same have u: "file_by_descriptor files (wd iev) = udata (evl ! (n - 1))"
    and un: "udata (evl ! (n - 1)) \<noteq> None"
    by (simp_all add: vnode_tagged_def)
  have e: "\<lparr>ident = wd iev, filter_k = EVFILT_VNODE, flags = 0,
            fflags = convert_mask (mask iev) OR fflags (evl ! (n - 1)), data = 0,
            udata = udata (evl ! (n - 1))\<rparr>
           = (evl ! (n - 1))\<lparr>fflags := convert_mask (mask iev) OR fflags (evl ! (n - 1))\<rparr>"
    using t same by (cases "evl ! (n - 1)") (simp add: vnode_tagged_def)
  show ?thesis
    using nz pos same un by (simp add: convert_record_def Let_def u e del: One_nat_def)
qed

lemma convert_record_fresh:
  assumes nz: "convert_mask (mask iev) \<noteq> 0"
    and other: "n = 0 \<or> ident (evl ! (n - 1)) \<noteq> wd iev"
  shows "convert_record files iev (n, evl) =
           (if file_by_descriptor files (wd iev) \<noteq> None then Suc n else n,
            evl[n := \<lparr>ident = wd iev, filter_k = EVFILT_VNODE, flags = 0,
                      fflags = convert_mask (mask iev), data = 0,
                      udata = file_by_descriptor files (wd iev)\<rparr>])"
  using nz other by (auto simp add: convert_record_def Let_def)

lemma convert_record_ok:
  assumes ok: "produced_ok files s" and room: "fst s < length (snd s)"
  shows "produced_ok files (convert_record files iev s)"
proof (cases s)
  case (Pair n evl)
  show ?thesis
  proof (cases "convert_mask (mask iev) = 0")
    case True
    then show ?thesis using ok by (simp add: convert_record_zero)
  next
    case nz: False
    show ?thesis
    proof (cases "0 < n \<and> ident (evl ! (n - 1)) = wd iev")
      case True
      then have m: "convert_record files iev (n, evl) =
           (n, evl[n - 1 := (evl ! (n - 1))\<lparr>fflags := convert_mask (mask iev) OR fflags (evl ! (n - 1))\<rparr>])"
        using convert_record_merge [of files n evl iev] ok nz Pair by simp
      have "vnode_tagged files (evl ! (n - 1))"
        using ok True Pair by (simp add: produced_ok_def)
      then have "vnode_tagged files ((evl ! (n - 1))\<lparr>fflags := convert_mask (mask iev) OR fflags (evl ! (n - 1))\<rparr>)"
        using nz by (simp add: vnode_tagged_def or_eq_0_iff)
      then show ?thesis
        using ok Pair room by (auto simp add: m produced_ok_def nth_list_update)
    next
      case False
      then have f: "convert_record files iev (n, evl) =
           (if file_by_descriptor files (wd iev) \<noteq> None then Suc n else n,
            evl[n := \<lparr>ident = wd iev, filter_k = EVFILT_VNODE, flags = 0,
                      fflags = convert_mask (mask iev), data = 0,
                      udata = file_by_descriptor files (wd iev)\<rparr>])"
        using convert_record_fresh [of iev n evl files] nz by auto
      show ?thesis
        using ok Pair room nz
        by (auto simp add: f produced_ok_def nth_list_update vnode_tagged_def less_Suc_eq)
    qed
  qed
qed

lemma read_records_ok:
  "produced_ok files s \<Longrightarrow> produced_ok files (read_records files buf s)"
  by (induction buf arbitrary: s) (simp_all add: convert_record_ok)

lemma read_records_length:
  "length (snd (read_records files buf s)) = length (snd s)"
  by (induction buf arbitrary: s) (simp_all add: convert_record_length)


lemma stdin_ready_Continue:
  "stdin_ready p (n, evl, dg) = Continue (n', evl', dg') \<Longrightarrow>
     n' = n \<and> evl' = evl \<and> dg' = dg \<and> \<not> pin_stdin p"
  by (auto simp add: stdin_ready_def split: if_splits)

lemma stdin_ready_Break:
  "stdin_ready p (n, evl, dg) = Break s' \<Longrightarrow>
     pin_stdin p \<and> n < length evl \<and> s' = (Suc n, evl[n := stdin_event], dg)"
  by (auto simp add: stdin_ready_def split: if_splits)

lemma round_body_cases:
  obtains (eintr) "pin_kq p" "rd p = ReadFail EINTR" "round_body files p (n, evl, dg) = Continue (n, evl, dg)"
  | (failed) e where "pin_kq p" "rd p = ReadFail e" "e \<noteq> EINTR"
      "round_body files p (n, evl, dg) = stdin_ready p (n, evl, dg @ [''read''])"
  | (batch) buf where "pin_kq p" "rd p = ReadOk buf"
      "round_body files p (n, evl, dg) =
         stdin_ready p (fst (read_records files buf (n, evl)), snd (read_records files buf (n, evl)), dg)"
  | (idle) "\<not> pin_kq p" "round_body files p (n, evl, dg) = stdin_ready p (n, evl, dg)"
  by (cases "pin_kq p"; cases "rd p") (auto simp add: round_body_def split: prod.splits)

lemma round_body_Continue_ok:
  assumes "produced_ok files (n, evl)" and "round_body files p (n, evl, dg) = Continue (n', evl', dg')"
  shows "produced_ok files (n', evl')"
proof (cases rule: round_body_cases [of p files n evl dg])
  case eintr
  then show ?thesis using assms by simp
next
  case (failed e)
  then have "stdin_ready p (n, evl, dg @ [''read'']) = Continue (n', evl', dg')"
    using assms by simp
  then have "n' = n \<and> evl' = evl" by (auto dest: stdin_ready_Continue)
  then show ?thesis using assms by simp
next
  case (batch buf)
  then have "stdin_ready p (fst (read_records files buf (n, evl)), snd (read_records files buf (n, evl)), dg)
               = Continue (n', evl', dg')"
    using assms by simp
  then have "(n', evl') = read_records files buf (n, evl)"
    by (auto dest: stdin_ready_Continue)
  then show ?thesis using assms read_records_ok by metis
next
  case idle
  then have "stdin_ready p (n, evl, dg) = Continue (n', evl', dg')"
    using assms by simp
  then have "n' = n \<and> evl' = evl" by (auto dest: stdin_ready_Continue)
  then show ?thesis using assms by simp
qed

lemma produced_then_stdin:
  assumes "produced_ok files (n, evl)" and "n < length evl"
  shows "final_ok files (Suc n, evl[n := stdin_event], dg)"
  using assms by (simp add: final_ok_def produced_ok_def)

lemma round_body_Break_ok:
  assumes "produced_ok files (n, evl)" and "round_body files p (n, evl, dg) = Break s'"
  shows "final_ok files s'"
proof (cases rule: round_body_cases [of p files n evl dg])
  case eintr
  then show ?thesis using assms by simp
next
  case (failed e)
  then show ?thesis using assms stdin_ready_Break produced_then_stdin by metis
next
  case (batch buf)
  obtain n1 evl1 where r: "read_records files buf (n, evl) = (n1, evl1)"
    by (cases "read_records files buf (n, evl)")
  then have ok1: "produced_ok files (n1, evl1)"
    using assms read_records_ok by metis
  from batch r assms have "stdin_ready p (n1, evl1, dg) = Break s'" by simp
  then show ?thesis using ok1 stdin_ready_Break produced_then_stdin by metis
next
  case idle
  then show ?thesis using assms stdin_ready_Break produced_then_stdin by metis
qed

lemma wait_rounds_ok:
  "produced_ok files (n, evl) \<Longrightarrow> wait_rounds files ps (n, evl, dg) = Inr s \<Longrightarrow> final_ok files s"
proof (induction ps arbitrary: n evl dg)
  case Nil
  then show ?case by (auto simp add: final_ok_def)
next
  case (Cons p ps)
  show ?case
  proof (cases "pret p > 0")
    case False
    then show ?thesis using Cons.prems by (auto simp add: final_ok_def)
  next
    case True
    show ?thesis
    proof (cases "round_body files p (n, evl, dg)")
      case (Continue s1)
      obtain n1 evl1 dg1 where s1: "s1 = (n1, evl1, dg1)" by (cases s1)
      have "produced_ok files (n1, evl1)"
        using round_body_Continue_ok Cons.prems(1) Continue s1 by metis
      moreover have "wait_rounds files ps (n1, evl1, dg1) = Inr s"
        using Cons.prems(2) True Continue s1 by simp
      ultimately show ?thesis by (rule Cons.IH)
    next
      case (Break s1)
      then have "s1 = s" using Cons.prems(2) True by simp
      then show ?thesis using round_body_Break_ok Cons.prems(1) Break by metis
    next
      case Overrun
      then show ?thesis using Cons.prems(2) True by simp
    qed
  qed
qed

lemma produced_ok_start: "produced_ok files (0, evl)"
  by (simp add: produced_ok_def)

lemma kevent_wait_ok:
  assumes "kevent_wait files tmo evl script = Inr s"
  shows "final_ok files s"
proof (cases "tmo \<and> script \<noteq> [] \<and> pret (hd script) \<noteq> 0")
  case False
  then consider "\<not> tmo" | "tmo" "script = []" | "tmo" "script \<noteq> []" "pret (hd script) = 0" by blast
  then show ?thesis
  proof cases
    case 1
    then have "wait_rounds files script (0, evl, []) = Inr s"
      using assms by (simp add: kevent_wait_def)
    then show ?thesis by (rule wait_rounds_ok [OF produced_ok_start])
  next
    case 2
    then show ?thesis using assms by (auto simp add: kevent_wait_def final_ok_def produced_ok_def)
  next
    case 3
    then show ?thesis using assms
      by (cases script) (auto simp add: kevent_wait_def final_ok_def produced_ok_def)
  qed
next
  case True
  then obtain p ps where sc: "script = p # ps" and nz: "pret p \<noteq> 0" and t: tmo
    by (cases script) auto
  define q where "q = (if pret p < 0 then no_revents p else p)"
  show ?thesis
  proof (cases "round_body files q (0, evl, [])")
    case (Continue s1)
    obtain n1 evl1 dg1 where s1: "s1 = (n1, evl1, dg1)" by (cases s1)
    have "produced_ok files (n1, evl1)"
      using round_body_Continue_ok produced_ok_start Continue s1 by metis
    moreover have "wait_rounds files ps (n1, evl1, dg1) = Inr s"
      using assms sc nz t Continue s1 by (simp add: kevent_wait_def q_def)
    ultimately show ?thesis by (rule wait_rounds_ok)
  next
    case (Break s1)
    then have "s1 = s" using assms sc nz t by (simp add: kevent_wait_def q_def)
    then show ?thesis using round_body_Break_ok produced_ok_start Break by metis
  next
    case Overrun
    then show ?thesis using assms sc nz t by (simp add: kevent_wait_def q_def)
  qed
qed

lemma final_ok_returned:
  assumes "final_ok files s" and "e \<in> set (returned_events s)"
  shows "vnode_tagged files e \<or> e = stdin_event"
proof -
  obtain n evl dg where s: "s = (n, evl, dg)" by (cases s)
  from assms(2) s obtain k where k: "k < n" "k < length evl" "e = evl ! k"
    by (auto simp add: returned_events_def in_set_conv_nth)
  from assms(1) s consider "produced_ok files (n, evl)"
    | "0 < n" "produced_ok files (n - 1, evl)" "evl ! (n - 1) = stdin_event"
    by (auto simp add: final_ok_def)
  then show ?thesis
  proof cases
    case 1
    then show ?thesis using k by (simp add: produced_ok_def)
  next
    case 2
    show ?thesis
    proof (cases "k = n - 1")
      case True
      then show ?thesis using 2 k by simp
    next
      case False
      then have "k < n - 1" using k by simp
      then show ?thesis using 2 k by (simp add: produced_ok_def)
    qed
  qed
qed

subsection \<open>Tags of the returned events\<close>

text \<open>
  Claim C10. Every event that the wait path returns with the filter \<open>EVFILT_VNODE\<close>
  carries a tag that is not null and that points to a registry entry whose \<open>fd\<close> is
  the \<open>ident\<close> of the event; an event with a null tag has the filter \<open>EVFILT_READ\<close>.
\<close>

theorem returned_vnode_events_tagged:
  assumes "kevent_wait files tmo evl script = Inr s"
  shows "\<forall>e\<in>set (returned_events s).
           (filter_k e = EVFILT_VNODE \<longrightarrow>
              (\<exists>i<length files. udata e = Some i \<and> fd (files ! i) = ident e)) \<and>
           (udata e = None \<longrightarrow> filter_k e = EVFILT_READ)"
proof
  fix e assume "e \<in> set (returned_events s)"
  then consider "vnode_tagged files e" | "e = stdin_event"
    using kevent_wait_ok [OF assms] final_ok_returned by blast
  then show "(filter_k e = EVFILT_VNODE \<longrightarrow>
              (\<exists>i<length files. udata e = Some i \<and> fd (files ! i) = ident e)) \<and>
           (udata e = None \<longrightarrow> filter_k e = EVFILT_READ)"
  proof cases
    case 1
    then obtain i where "file_by_descriptor files (ident e) = Some i" "udata e = Some i"
      by (auto simp add: vnode_tagged_def)
    then show ?thesis using file_by_descriptor_Some_iff [of files "ident e" i] by auto
  next
    case 2
    then show ?thesis by (simp add: stdin_event_def EVFILT_READ_def EVFILT_VNODE_def)
  qed
qed

theorem returned_vnode_events_tagged_witness:
  "kevent_wait [\<lparr>fn = ''a.txt'', fd = 1\<rparr>, \<lparr>fn = ''b.txt'', fd = 2\<rparr>] False
         (replicate 3 stdin_event)
         [\<lparr>pret = 2, pin_kq = True, pin_stdin = True,
           rd = ReadOk [\<lparr>wd = 1, mask = IN_CLOSE_WRITE\<rparr>, \<lparr>wd = 7, mask = IN_ATTRIB\<rparr>,
                        \<lparr>wd = 2, mask = IN_IGNORED\<rparr>]\<rparr>]
     = Inr (2, [\<lparr>ident = 1, filter_k = EVFILT_VNODE, flags = 0, fflags = NOTE_WRITE, data = 0, udata = Some 0\<rparr>,
                stdin_event, stdin_event], [])
   \<and> (\<exists>i<length [\<lparr>fn = ''a.txt'', fd = 1\<rparr>, \<lparr>fn = ''b.txt'', fd = 2\<rparr>].
          Some 0 = Some i \<and> fd ([\<lparr>fn = ''a.txt'', fd = 1\<rparr>, \<lparr>fn = ''b.txt'', fd = 2\<rparr>] ! i) = 1)
   \<and> filter_k stdin_event = EVFILT_READ"
proof -
  have h: "kevent_wait [\<lparr>fn = ''a.txt'', fd = 1\<rparr>, \<lparr>fn = ''b.txt'', fd = 2\<rparr>] False
         (replicate 3 stdin_event)
         [\<lparr>pret = 2, pin_kq = True, pin_stdin = True,
           rd = ReadOk [\<lparr>wd = 1, mask = IN_CLOSE_WRITE\<rparr>, \<lparr>wd = 7, mask = IN_ATTRIB\<rparr>,
                        \<lparr>wd = 2, mask = IN_IGNORED\<rparr>]\<rparr>]
     = Inr (2, [\<lparr>ident = 1, filter_k = EVFILT_VNODE, flags = 0, fflags = NOTE_WRITE, data = 0, udata = Some 0\<rparr>,
                stdin_event, stdin_event], [])"
    by (simp add: shim_defs shim_consts numeral_3_eq_3)
  show ?thesis
    using returned_vnode_events_tagged [OF h] h
    by (simp add: returned_events_def stdin_event_def EVFILT_VNODE_def EVFILT_READ_def)
qed


subsection \<open>Records without a flag\<close>

lemma read_records_full:
  "\<not> fst s < length (snd s) \<Longrightarrow> read_records files buf s = s"
  by (cases buf) simp_all

lemma read_records_append:
  "read_records files (a @ b) s = read_records files b (read_records files a s)"
proof (induction a arbitrary: s)
  case Nil
  then show ?case by simp
next
  case (Cons r a)
  then show ?case by (simp add: read_records_full)
qed

lemma read_records_skip_zero:
  "read_records files buf s =
     read_records files (filter (\<lambda>r. convert_mask (mask r) \<noteq> 0) buf) s"
proof (induction buf arbitrary: s)
  case Nil
  then show ?case by simp
next
  case (Cons r buf)
  then show ?case by (simp add: read_records_full convert_record_zero)
qed

lemma vnode_tagged_flags: "vnode_tagged files e \<Longrightarrow> fflags e \<noteq> 0"
  by (simp add: vnode_tagged_def)

lemma round_body_no_stdin:
  "\<not> pin_stdin p \<Longrightarrow> round_body files p s \<noteq> Overrun \<and> (\<forall>s'. round_body files p s \<noteq> Break s')"
  by (cases s) (simp add: round_body_def stdin_ready_def split: read_result.split prod.split)

lemma wait_rounds_no_stdin:
  "produced_ok files (n, evl) \<Longrightarrow> \<forall>p\<in>set ps. \<not> pin_stdin p \<Longrightarrow>
     wait_rounds files ps (n, evl, dg) = Inr (n', evl', dg') \<Longrightarrow> produced_ok files (n', evl')"
proof (induction ps arbitrary: n evl dg)
  case Nil
  then show ?case by simp
next
  case (Cons p ps)
  show ?case
  proof (cases "pret p > 0")
    case False
    then show ?thesis using Cons.prems by simp
  next
    case True
    have ns: "\<not> pin_stdin p" using Cons.prems(2) by simp
    show ?thesis
    proof (cases "round_body files p (n, evl, dg)")
      case (Continue s1)
      obtain n1 evl1 dg1 where s1: "s1 = (n1, evl1, dg1)" by (cases s1)
      have "produced_ok files (n1, evl1)"
        using round_body_Continue_ok Cons.prems(1) Continue s1 by metis
      moreover have "\<forall>p\<in>set ps. \<not> pin_stdin p" using Cons.prems(2) by simp
      moreover have "wait_rounds files ps (n1, evl1, dg1) = Inr (n', evl', dg')"
        using Cons.prems(3) True Continue s1 by simp
      ultimately show ?thesis by (rule Cons.IH)
    next
      case (Break s1)
      then show ?thesis using round_body_no_stdin [OF ns] by blast
    next
      case Overrun
      then show ?thesis using round_body_no_stdin [OF ns] by blast
    qed
  qed
qed

lemma kevent_wait_no_stdin:
  assumes "kevent_wait files tmo evl script = Inr (n', evl', dg')"
    and "\<forall>p\<in>set script. \<not> pin_stdin p"
  shows "produced_ok files (n', evl')"
proof (cases "tmo \<and> script \<noteq> [] \<and> pret (hd script) \<noteq> 0")
  case False
  then consider "\<not> tmo" | "tmo" "script = []" | "tmo" "script \<noteq> []" "pret (hd script) = 0" by blast
  then show ?thesis
  proof cases
    case 1
    then have "wait_rounds files script (0, evl, []) = Inr (n', evl', dg')"
      using assms(1) by (simp add: kevent_wait_def)
    then show ?thesis using wait_rounds_no_stdin [OF produced_ok_start assms(2)] by blast
  next
    case 2
    then show ?thesis using assms(1) by (auto simp add: kevent_wait_def produced_ok_def)
  next
    case 3
    then show ?thesis using assms(1)
      by (cases script) (auto simp add: kevent_wait_def produced_ok_def)
  qed
next
  case True
  then obtain p ps where sc: "script = p # ps" and nz: "pret p \<noteq> 0" and t: tmo
    by (cases script) auto
  define q where "q = (if pret p < 0 then no_revents p else p)"
  have nq: "\<not> pin_stdin q" using assms(2) sc by (simp add: q_def no_revents_def)
  show ?thesis
  proof (cases "round_body files q (0, evl, [])")
    case (Continue s1)
    obtain n1 evl1 dg1 where s1: "s1 = (n1, evl1, dg1)" by (cases s1)
    have "produced_ok files (n1, evl1)"
      using round_body_Continue_ok produced_ok_start Continue s1 by metis
    moreover have "\<forall>p\<in>set ps. \<not> pin_stdin p" using assms(2) sc by simp
    moreover have "wait_rounds files ps (n1, evl1, dg1) = Inr (n', evl', dg')"
      using assms(1) sc nz t Continue s1 by (simp add: kevent_wait_def q_def)
    ultimately show ?thesis by (rule wait_rounds_no_stdin)
  next
    case (Break s1)
    then show ?thesis using round_body_no_stdin [OF nq] by blast
  next
    case Overrun
    then show ?thesis using round_body_no_stdin [OF nq] by blast
  qed
qed

text \<open>
  Claim C7, as stated, fails when standard input is readable. One file changes and
  standard input is readable in the same round: the call returns the event of the
  file and, after it, the \<open>EVFILT_READ\<close> event, whose \<open>fflags\<close> line 164 sets to 0.
  An event with an empty flag set is in the returned list.
\<close>

theorem returned_stdin_event_has_no_flags:
  "kevent_wait [\<lparr>fn = ''a.txt'', fd = 1\<rparr>] False
      [\<lparr>ident = 9, filter_k = 0, flags = 0, fflags = 255, data = 0, udata = None\<rparr>,
       \<lparr>ident = 9, filter_k = 0, flags = 0, fflags = 255, data = 0, udata = None\<rparr>]
      [\<lparr>pret = 2, pin_kq = True, pin_stdin = True, rd = ReadOk [\<lparr>wd = 1, mask = IN_CLOSE_WRITE\<rparr>]\<rparr>]
     = Inr (2, [\<lparr>ident = 1, filter_k = EVFILT_VNODE, flags = 0, fflags = NOTE_WRITE, data = 0, udata = Some 0\<rparr>,
                \<lparr>ident = 0, filter_k = EVFILT_READ, flags = 0, fflags = 0, data = 0, udata = None\<rparr>], []) \<and>
   returned_events
       (2, [\<lparr>ident = 1, filter_k = EVFILT_VNODE, flags = 0, fflags = NOTE_WRITE, data = 0, udata = Some 0\<rparr>,
            \<lparr>ident = 0, filter_k = EVFILT_READ, flags = 0, fflags = 0, data = 0, udata = None\<rparr>], [])
     = [\<lparr>ident = 1, filter_k = EVFILT_VNODE, flags = 0, fflags = NOTE_WRITE, data = 0, udata = Some 0\<rparr>,
        \<lparr>ident = 0, filter_k = EVFILT_READ, flags = 0, fflags = 0, data = 0, udata = None\<rparr>] \<and>
   fflags \<lparr>ident = 0, filter_k = EVFILT_READ, flags = 0, fflags = 0, data = 0, udata = None :: nat option\<rparr> = 0"
  by (simp add: shim_defs shim_consts)

text \<open>
  Claim C7, amended. A record whose converted flag set is empty produces no event:
  the record leaves the counter and the array as they were, and a batch gives the
  same result as the batch without such records. Every returned event with the
  filter \<open>EVFILT_VNODE\<close> has a flag set that is not empty; the only event with an
  empty \<open>fflags\<close> that a wait call can return is the \<open>EVFILT_READ\<close> event of
  standard input, which no record produces. A call in which standard input is
  never readable returns no event with an empty flag set at all.
\<close>

theorem zero_flag_records_not_surfaced:
  "(convert_mask (mask iev) = 0 \<longrightarrow> convert_record files iev st = st) \<and>
   read_records files buf st =
     read_records files (filter (\<lambda>r. convert_mask (mask r) \<noteq> 0) buf) st \<and>
   (kevent_wait files tmo evl script = Inr s \<longrightarrow>
      (\<forall>e\<in>set (returned_events s).
          (filter_k e = EVFILT_VNODE \<longrightarrow> fflags e \<noteq> 0) \<and> (fflags e = 0 \<longrightarrow> e = stdin_event)) \<and>
      ((\<forall>p\<in>set script. \<not> pin_stdin p) \<longrightarrow> (\<forall>e\<in>set (returned_events s). fflags e \<noteq> 0)))"
proof (intro conjI impI ballI)
  assume "convert_mask (mask iev) = 0"
  then show "convert_record files iev st = st" by (rule convert_record_zero)
next
  show "read_records files buf st =
     read_records files (filter (\<lambda>r. convert_mask (mask r) \<noteq> 0) buf) st"
    by (rule read_records_skip_zero)
next
  fix e
  assume w: "kevent_wait files tmo evl script = Inr s"
    and e: "e \<in> set (returned_events s)" and v: "filter_k e = EVFILT_VNODE"
  from kevent_wait_ok [OF w] e have "vnode_tagged files e \<or> e = stdin_event"
    by (rule final_ok_returned)
  moreover have "filter_k stdin_event \<noteq> EVFILT_VNODE"
    by (simp add: stdin_event_def EVFILT_READ_def EVFILT_VNODE_def)
  ultimately show "fflags e \<noteq> 0" using v vnode_tagged_flags by blast
next
  fix e
  assume w: "kevent_wait files tmo evl script = Inr s"
    and e: "e \<in> set (returned_events s)" and z: "fflags e = 0"
  from kevent_wait_ok [OF w] e have "vnode_tagged files e \<or> e = stdin_event"
    by (rule final_ok_returned)
  then show "e = stdin_event" using z vnode_tagged_flags by blast
next
  fix e
  assume w: "kevent_wait files tmo evl script = Inr s"
    and ns: "\<forall>p\<in>set script. \<not> pin_stdin p"
    and e: "e \<in> set (returned_events s)"
  obtain n' evl' dg' where s: "s = (n', evl', dg')" by (cases s)
  have ok: "produced_ok files (n', evl')"
    using kevent_wait_no_stdin [of files tmo evl script n' evl' dg'] w ns s by simp
  from e s obtain k where k: "k < n'" "k < length evl'" "e = evl' ! k"
    by (auto simp add: returned_events_def in_set_conv_nth)
  then have "vnode_tagged files e" using ok by (simp add: produced_ok_def)
  then show "fflags e \<noteq> 0" by (rule vnode_tagged_flags)
qed

theorem zero_flag_records_not_surfaced_witness:
  "convert_mask (mask \<lparr>wd = 2, mask = IN_IGNORED\<rparr>) = 0 \<and>
   convert_record [\<lparr>fn = ''a.txt'', fd = 1\<rparr>, \<lparr>fn = ''b.txt'', fd = 2\<rparr>] \<lparr>wd = 2, mask = IN_IGNORED\<rparr>
       (0, replicate 3 stdin_event) = (0, replicate 3 stdin_event) \<and>
   kevent_wait [\<lparr>fn = ''a.txt'', fd = 1\<rparr>, \<lparr>fn = ''b.txt'', fd = 2\<rparr>] False
         (replicate 3 stdin_event)
         [\<lparr>pret = 1, pin_kq = True, pin_stdin = False,
           rd = ReadOk [\<lparr>wd = 2, mask = IN_IGNORED\<rparr>, \<lparr>wd = 1, mask = IN_CLOSE_WRITE\<rparr>,
                        \<lparr>wd = 2, mask = IN_MODIFY\<rparr>]\<rparr>]
     = Inr (1, [\<lparr>ident = 1, filter_k = EVFILT_VNODE, flags = 0, fflags = NOTE_WRITE, data = 0, udata = Some 0\<rparr>,
                stdin_event, stdin_event], []) \<and>
   fflags \<lparr>ident = 1, filter_k = EVFILT_VNODE, flags = 0, fflags = NOTE_WRITE, data = 0, udata = Some (0::nat)\<rparr> \<noteq> 0"
proof -
  have z: "convert_mask (mask \<lparr>wd = 2, mask = IN_IGNORED\<rparr>) = 0"
    by (simp add: shim_defs shim_consts)
  have h: "kevent_wait [\<lparr>fn = ''a.txt'', fd = 1\<rparr>, \<lparr>fn = ''b.txt'', fd = 2\<rparr>] False
         (replicate 3 stdin_event)
         [\<lparr>pret = 1, pin_kq = True, pin_stdin = False,
           rd = ReadOk [\<lparr>wd = 2, mask = IN_IGNORED\<rparr>, \<lparr>wd = 1, mask = IN_CLOSE_WRITE\<rparr>,
                        \<lparr>wd = 2, mask = IN_MODIFY\<rparr>]\<rparr>]
     = Inr (1, [\<lparr>ident = 1, filter_k = EVFILT_VNODE, flags = 0, fflags = NOTE_WRITE, data = 0, udata = Some 0\<rparr>,
                stdin_event, stdin_event], [])"
    by (simp add: shim_defs shim_consts numeral_3_eq_3)
  show ?thesis
    using zero_flag_records_not_surfaced
      [of "\<lparr>wd = 2, mask = IN_IGNORED\<rparr>"
          "[\<lparr>fn = ''a.txt'', fd = 1\<rparr>, \<lparr>fn = ''b.txt'', fd = 2\<rparr>]"
          "(0, replicate 3 stdin_event)" "[]" False "replicate 3 stdin_event"
          "[\<lparr>pret = 1, pin_kq = True, pin_stdin = False,
           rd = ReadOk [\<lparr>wd = 2, mask = IN_IGNORED\<rparr>, \<lparr>wd = 1, mask = IN_CLOSE_WRITE\<rparr>,
                        \<lparr>wd = 2, mask = IN_MODIFY\<rparr>]\<rparr>]"
          "(1, [\<lparr>ident = 1, filter_k = EVFILT_VNODE, flags = 0, fflags = NOTE_WRITE, data = 0, udata = Some 0\<rparr>,
                stdin_event, stdin_event], [])"]
      z h
    by (simp add: returned_events_def stdin_event_def NOTE_WRITE_def)
qed

subsection \<open>An interrupted read\<close>

text \<open>
  Claim C9, as stated, fails in "the read is retried". A record of the watched file
  is waiting. The \<open>read\<close> is interrupted; \<open>continue\<close> jumps to the loop condition,
  and the \<open>poll\<close> there is interrupted as well and returns \<open>-1\<close>. The loop ends and
  the call returns no event: the read is not made again in this call.
\<close>

theorem eintr_then_failed_poll_reads_nothing:
  "kevent_wait [\<lparr>fn = ''a.txt'', fd = 1\<rparr>] False
      [\<lparr>ident = 9, filter_k = 0, flags = 0, fflags = 255, data = 0, udata = None\<rparr>,
       \<lparr>ident = 9, filter_k = 0, flags = 0, fflags = 255, data = 0, udata = None\<rparr>]
      [\<lparr>pret = 1, pin_kq = True, pin_stdin = False, rd = ReadFail EINTR\<rparr>,
       \<lparr>pret = -1, pin_kq = True, pin_stdin = False, rd = ReadOk [\<lparr>wd = 1, mask = IN_CLOSE_WRITE\<rparr>]\<rparr>]
     = Inr (0, [\<lparr>ident = 9, filter_k = 0, flags = 0, fflags = 255, data = 0, udata = None\<rparr>,
                \<lparr>ident = 9, filter_k = 0, flags = 0, fflags = 255, data = 0, udata = None\<rparr>], []) \<and>
   returned_events
      (0, [\<lparr>ident = 9, filter_k = 0, flags = 0, fflags = 255, data = 0, udata = None\<rparr>,
           \<lparr>ident = 9, filter_k = 0, flags = 0, fflags = 255, data = 0, udata = None :: nat option\<rparr>],
       []) = []"
  by (simp add: shim_defs shim_consts)

text \<open>
  Claim C9, amended. A round in which \<open>read\<close> fails with \<open>EINTR\<close> changes nothing:
  no line is written by \<open>perror\<close>, no event is lost or added, no failure is
  reported, and the call goes on at the \<open>poll\<close> of the loop condition; it gives the
  result it would give without that round. The read is made again, and its records
  are converted, when that \<open>poll\<close> returns a positive value with the inotify
  descriptor readable. When that \<open>poll\<close> returns 0 or \<open>-1\<close>, or times out, the call
  returns what it has collected so far without reading again.
\<close>

theorem eintr_round_goes_on_at_poll:
  assumes "pret p > 0" and "pin_kq p" and "rd p = ReadFail EINTR"
  shows "wait_rounds files (p # ps) s = wait_rounds files ps s \<and>
         kevent_wait files False evl (p # ps) = kevent_wait files False evl ps \<and>
         kevent_wait files True evl (p # ps) = wait_rounds files ps (0, evl, []) \<and>
         (pret q > 0 \<and> pin_kq q \<and> rd q = ReadOk buf \<and> \<not> pin_stdin q \<longrightarrow>
            wait_rounds files (p # q # ps) (n, evl, dg) =
              wait_rounds files ps (fst (read_records files buf (n, evl)),
                                    snd (read_records files buf (n, evl)), dg)) \<and>
         (pret q \<le> 0 \<longrightarrow> wait_rounds files (p # q # ps) (n, evl, dg) = Inr (n, evl, dg)) \<and>
         wait_rounds files [p] (n, evl, dg) = Inr (n, evl, dg)"
proof -
  have b: "round_body files p t = Continue t" for t
    using assms by (cases t) (simp add: round_body_def)
  have 1: "wait_rounds files (p # qs) t = wait_rounds files qs t" for t qs
    using assms(1) b by simp
  have 2: "kevent_wait files False evl (p # ps) = kevent_wait files False evl ps"
    using 1 by (simp add: kevent_wait_def)
  have 3: "kevent_wait files True evl (p # ps) = wait_rounds files ps (0, evl, [])"
    using assms(1) b by (simp add: kevent_wait_def)
  have 4: "wait_rounds files (p # q # ps) (n, evl, dg) =
              wait_rounds files ps (fst (read_records files buf (n, evl)),
                                    snd (read_records files buf (n, evl)), dg)"
    if q: "pret q > 0 \<and> pin_kq q \<and> rd q = ReadOk buf \<and> \<not> pin_stdin q"
  proof -
    have "round_body files q (n, evl, dg) =
            Continue (fst (read_records files buf (n, evl)),
                      snd (read_records files buf (n, evl)), dg)"
      using q by (simp add: round_body_def stdin_ready_def split: prod.splits)
    then have "wait_rounds files (q # ps) (n, evl, dg) =
              wait_rounds files ps (fst (read_records files buf (n, evl)),
                                    snd (read_records files buf (n, evl)), dg)"
      using q by simp
    then show ?thesis by (simp only: 1)
  qed
  have 5: "wait_rounds files (p # q # ps) (n, evl, dg) = Inr (n, evl, dg)" if "pret q \<le> 0"
    using that by (simp only: 1) simp
  have 6: "wait_rounds files [p] (n, evl, dg) = Inr (n, evl, dg)"
    by (simp only: 1) simp
  show ?thesis using 1 2 3 4 5 6 by blast
qed


theorem eintr_round_goes_on_at_poll_witness:
  "pret \<lparr>pret = 1, pin_kq = True, pin_stdin = False, rd = ReadFail EINTR\<rparr> > 0 \<and>
   pin_kq \<lparr>pret = 1, pin_kq = True, pin_stdin = False, rd = ReadFail EINTR\<rparr> \<and>
   rd \<lparr>pret = 1, pin_kq = True, pin_stdin = False, rd = ReadFail EINTR\<rparr> = ReadFail EINTR \<and>
   kevent_wait [\<lparr>fn = ''a.txt'', fd = 1\<rparr>] False [stdin_event, stdin_event]
      [\<lparr>pret = 1, pin_kq = True, pin_stdin = False, rd = ReadFail EINTR\<rparr>,
       \<lparr>pret = 1, pin_kq = True, pin_stdin = False, rd = ReadOk [\<lparr>wd = 1, mask = IN_CLOSE_WRITE\<rparr>]\<rparr>]
     = kevent_wait [\<lparr>fn = ''a.txt'', fd = 1\<rparr>] False [stdin_event, stdin_event]
      [\<lparr>pret = 1, pin_kq = True, pin_stdin = False, rd = ReadOk [\<lparr>wd = 1, mask = IN_CLOSE_WRITE\<rparr>]\<rparr>] \<and>
   kevent_wait [\<lparr>fn = ''a.txt'', fd = 1\<rparr>] False [stdin_event, stdin_event]
      [\<lparr>pret = 1, pin_kq = True, pin_stdin = False, rd = ReadFail EINTR\<rparr>,
       \<lparr>pret = 1, pin_kq = True, pin_stdin = False, rd = ReadOk [\<lparr>wd = 1, mask = IN_CLOSE_WRITE\<rparr>]\<rparr>]
     = Inr (1, [\<lparr>ident = 1, filter_k = EVFILT_VNODE, flags = 0, fflags = NOTE_WRITE, data = 0, udata = Some 0\<rparr>,
                stdin_event], [])"
proof -
  have e: "kevent_wait [\<lparr>fn = ''a.txt'', fd = 1\<rparr>] False [stdin_event, stdin_event]
      [\<lparr>pret = 1, pin_kq = True, pin_stdin = False, rd = ReadOk [\<lparr>wd = 1, mask = IN_CLOSE_WRITE\<rparr>]\<rparr>]
     = Inr (1, [\<lparr>ident = 1, filter_k = EVFILT_VNODE, flags = 0, fflags = NOTE_WRITE, data = 0, udata = Some 0\<rparr>,
                stdin_event], [])"
    by (simp add: shim_defs shim_consts)
  show ?thesis
    using eintr_round_goes_on_at_poll
      [of "\<lparr>pret = 1, pin_kq = True, pin_stdin = False, rd = ReadFail EINTR\<rparr>"
          "[\<lparr>fn = ''a.txt'', fd = 1\<rparr>]"
          "[\<lparr>pret = 1, pin_kq = True, pin_stdin = False, rd = ReadOk [\<lparr>wd = 1, mask = IN_CLOSE_WRITE\<rparr>]\<rparr>]"
          "(0, [stdin_event, stdin_event], [])" "[stdin_event, stdin_event]"]
    by (simp add: e)
qed

subsection \<open>Standard input\<close>

lemma stdin_ready_room:
  "pin_stdin p \<Longrightarrow> n < length evl \<Longrightarrow>
     stdin_ready p (n, evl, dg) = Break (Suc n, evl[n := stdin_event], dg)"
  by (simp add: stdin_ready_def)

lemma stdin_ready_full:
  "pin_stdin p \<Longrightarrow> \<not> n < length evl \<Longrightarrow> stdin_ready p (n, evl, dg) = Overrun"
  by (simp add: stdin_ready_def)

text \<open>
  Claim C8. With room in the array, readiness of standard input appends the one
  \<open>EVFILT_READ\<close> event and ends the call (\<open>stdin_ready_room\<close>). The store has no
  guard of its own, though. Here 32 files changed at once fill the caller's 32
  entries, standard input is readable in the same round, and the event is stored
  at \<open>eventlist[32]\<close>, behind the array.
\<close>

theorem stdin_event_past_full_array:
  "kevent_wait (map (\<lambda>k. \<lparr>fn = ''f'', fd = int k\<rparr>) [1..<33]) False (replicate 32 stdin_event)
     [\<lparr>pret = 2, pin_kq = True, pin_stdin = True,
       rd = ReadOk (map (\<lambda>k. \<lparr>wd = int k, mask = IN_CLOSE_WRITE\<rparr>) [1..<33])\<rparr>]
   = Inl BufferOverrun"
  by code_simp


subsection \<open>Merging\<close>

text \<open>
  Claim C4, as stated, fails when the array is full. 32 files change at once and
  the last one is reported twice, first \<open>IN_CLOSE_WRITE\<close>, then \<open>IN_ATTRIB\<close>: the
  first 32 records fill the 32 entries, the loop condition \<open>n < nevents\<close> ends the
  conversion, and the last record is never looked at. The event of that file keeps
  the flag \<open>NOTE_WRITE\<close> alone.
\<close>

theorem merge_dropped_when_array_full:
  "(case kevent_wait (map (\<lambda>k. \<lparr>fn = ''f'', fd = int k\<rparr>) [1..<33]) False (replicate 32 stdin_event)
          [\<lparr>pret = 1, pin_kq = True, pin_stdin = False,
            rd = ReadOk (map (\<lambda>k. \<lparr>wd = int k, mask = IN_CLOSE_WRITE\<rparr>) [1..<33]
                         @ [\<lparr>wd = 32, mask = IN_ATTRIB\<rparr>])\<rparr>] of
      Inl e \<Rightarrow> False
    | Inr s \<Rightarrow> length (returned_events s) = 32 \<and>
               ident (returned_events s ! 31) = 32 \<and>
               fflags (returned_events s ! 31) = NOTE_WRITE \<and>
               fflags (returned_events s ! 31) \<noteq> NOTE_WRITE OR NOTE_ATTRIB)"
  by code_simp

text \<open>
  Claim C4, amended. While fewer than \<open>nevents\<close> events are counted, a record
  with a flag set whose \<open>wd\<close> is the \<open>ident\<close> of the last counted event of the
  batch is merged into that event: the count stays, and the entry is the old one
  with the new flags \<open>OR\<close>ed in. In particular a batch of exactly two records for one
  registered watch descriptor, converted to \<open>NOTE_WRITE\<close> and \<open>NOTE_ATTRIB\<close>, read
  into an array of at least two entries, gives one event with both flags, tagged
  with the registry entry of that descriptor.
\<close>

theorem merge_with_preceding_event:
  "(read_records files pre (0, evl0) = (n, evl) \<and> 0 < n \<and> n < length evl \<and>
    ident (evl ! (n - 1)) = wd iev \<and> convert_mask (mask iev) \<noteq> 0 \<longrightarrow>
      read_records files (pre @ [iev]) (0, evl0) =
        (n, evl[n - 1 := (evl ! (n - 1))\<lparr>fflags := convert_mask (mask iev) OR fflags (evl ! (n - 1))\<rparr>])) \<and>
   (file_by_descriptor files w = Some i \<and> 2 \<le> length evl0 \<and>
    convert_mask m1 = NOTE_WRITE \<and> convert_mask m2 = NOTE_ATTRIB \<and>
    pret p > 0 \<and> pin_kq p \<and> \<not> pin_stdin p \<and>
    rd p = ReadOk [\<lparr>wd = w, mask = m1\<rparr>, \<lparr>wd = w, mask = m2\<rparr>] \<longrightarrow>
      kevent_wait files False evl0 [p] =
        Inr (1, evl0[0 := \<lparr>ident = w, filter_k = EVFILT_VNODE, flags = 0,
                            fflags = NOTE_ATTRIB OR NOTE_WRITE, data = 0, udata = Some i\<rparr>], []))"
proof (intro conjI impI)
  assume a: "read_records files pre (0, evl0) = (n, evl) \<and> 0 < n \<and> n < length evl \<and>
    ident (evl ! (n - 1)) = wd iev \<and> convert_mask (mask iev) \<noteq> 0"
  have ok: "produced_ok files (n, evl)"
    using read_records_ok [OF produced_ok_start, of files pre evl0] a by simp
  have "read_records files (pre @ [iev]) (0, evl0) = read_records files [iev] (n, evl)"
    using a by (simp add: read_records_append)
  also have "\<dots> = convert_record files iev (n, evl)"
    using a by simp
  also have "\<dots> = (n, evl[n - 1 := (evl ! (n - 1))\<lparr>fflags := convert_mask (mask iev) OR fflags (evl ! (n - 1))\<rparr>])"
    using convert_record_merge [OF ok] a by blast
  finally show "read_records files (pre @ [iev]) (0, evl0) =
        (n, evl[n - 1 := (evl ! (n - 1))\<lparr>fflags := convert_mask (mask iev) OR fflags (evl ! (n - 1))\<rparr>])" .
next
  assume b: "file_by_descriptor files w = Some i \<and> 2 \<le> length evl0 \<and>
    convert_mask m1 = NOTE_WRITE \<and> convert_mask m2 = NOTE_ATTRIB \<and>
    pret p > 0 \<and> pin_kq p \<and> \<not> pin_stdin p \<and>
    rd p = ReadOk [\<lparr>wd = w, mask = m1\<rparr>, \<lparr>wd = w, mask = m2\<rparr>]"
  let ?e1 = "\<lparr>ident = w, filter_k = EVFILT_VNODE, flags = 0, fflags = NOTE_WRITE, data = 0, udata = Some i\<rparr>"
  have 1: "convert_record files \<lparr>wd = w, mask = m1\<rparr> (0, evl0) = (1, evl0[0 := ?e1])"
    using b by (simp add: convert_record_def Let_def NOTE_WRITE_def)
  have len: "0 < length evl0" "1 < length evl0"
    using b by linarith+
  have 2: "convert_record files \<lparr>wd = w, mask = m2\<rparr> (1, evl0[0 := ?e1]) =
             (1, evl0[0 := \<lparr>ident = w, filter_k = EVFILT_VNODE, flags = 0,
                            fflags = NOTE_ATTRIB OR NOTE_WRITE, data = 0, udata = Some i\<rparr>])"
    using b len by (simp add: convert_record_def Let_def NOTE_ATTRIB_def NOTE_WRITE_def)
  have "read_records files [\<lparr>wd = w, mask = m1\<rparr>, \<lparr>wd = w, mask = m2\<rparr>] (0, evl0) =
          (1, evl0[0 := \<lparr>ident = w, filter_k = EVFILT_VNODE, flags = 0,
                            fflags = NOTE_ATTRIB OR NOTE_WRITE, data = 0, udata = Some i\<rparr>])"
    using b len by (simp add: 1 2 del: One_nat_def)
  then show "kevent_wait files False evl0 [p] =
        Inr (1, evl0[0 := \<lparr>ident = w, filter_k = EVFILT_VNODE, flags = 0,
                            fflags = NOTE_ATTRIB OR NOTE_WRITE, data = 0, udata = Some i\<rparr>], [])"
    using b by (simp add: kevent_wait_def round_body_def stdin_ready_def)
qed


theorem merge_with_preceding_event_witness:
  "read_records [\<lparr>fn = ''a.txt'', fd = 1\<rparr>] [\<lparr>wd = 1, mask = IN_CLOSE_WRITE\<rparr>] (0, [stdin_event, stdin_event])
     = (1, [\<lparr>ident = 1, filter_k = EVFILT_VNODE, flags = 0, fflags = NOTE_WRITE, data = 0, udata = Some 0\<rparr>, stdin_event]) \<and>
   convert_mask (mask \<lparr>wd = 1, mask = IN_ATTRIB\<rparr>) \<noteq> 0 \<and>
   read_records [\<lparr>fn = ''a.txt'', fd = 1\<rparr>] ([\<lparr>wd = 1, mask = IN_CLOSE_WRITE\<rparr>] @ [\<lparr>wd = 1, mask = IN_ATTRIB\<rparr>])
       (0, [stdin_event, stdin_event])
     = (1, [\<lparr>ident = 1, filter_k = EVFILT_VNODE, flags = 0, fflags = NOTE_ATTRIB OR NOTE_WRITE, data = 0, udata = Some 0\<rparr>, stdin_event]) \<and>
   file_by_descriptor [\<lparr>fn = ''a.txt'', fd = 1\<rparr>] 1 = Some 0 \<and>
   convert_mask IN_CLOSE_WRITE = NOTE_WRITE \<and> convert_mask IN_ATTRIB = NOTE_ATTRIB \<and>
   kevent_wait [\<lparr>fn = ''a.txt'', fd = 1\<rparr>] False [stdin_event, stdin_event]
      [\<lparr>pret = 1, pin_kq = True, pin_stdin = False,
        rd = ReadOk [\<lparr>wd = 1, mask = IN_CLOSE_WRITE\<rparr>, \<lparr>wd = 1, mask = IN_ATTRIB\<rparr>]\<rparr>]
     = Inr (1, [\<lparr>ident = 1, filter_k = EVFILT_VNODE, flags = 0, fflags = NOTE_ATTRIB OR NOTE_WRITE, data = 0, udata = Some 0\<rparr>, stdin_event], [])"
proof -
  have pre: "read_records [\<lparr>fn = ''a.txt'', fd = 1\<rparr>] [\<lparr>wd = 1, mask = IN_CLOSE_WRITE\<rparr>] (0, [stdin_event, stdin_event])
     = (1, [\<lparr>ident = 1, filter_k = EVFILT_VNODE, flags = 0, fflags = NOTE_WRITE, data = 0, udata = Some 0\<rparr>, stdin_event])"
    by (simp add: shim_defs shim_consts)
  have nz: "convert_mask (mask \<lparr>wd = 1, mask = IN_ATTRIB\<rparr>) \<noteq> 0"
    by (simp add: shim_defs shim_consts)
  have lk: "file_by_descriptor [\<lparr>fn = ''a.txt'', fd = 1\<rparr>] 1 = Some 0"
    by (simp add: shim_defs)
  have m1: "convert_mask IN_CLOSE_WRITE = NOTE_WRITE" and m2: "convert_mask IN_ATTRIB = NOTE_ATTRIB"
    by (simp_all add: shim_defs shim_consts)
  show ?thesis
    using merge_with_preceding_event
      [of "[\<lparr>fn = ''a.txt'', fd = 1\<rparr>]" "[\<lparr>wd = 1, mask = IN_CLOSE_WRITE\<rparr>]" "[stdin_event, stdin_event]" 1
          "[\<lparr>ident = 1, filter_k = EVFILT_VNODE, flags = 0, fflags = NOTE_WRITE, data = 0, udata = Some 0\<rparr>, stdin_event]"
          "\<lparr>wd = 1, mask = IN_ATTRIB\<rparr>" 1 0 IN_CLOSE_WRITE IN_ATTRIB
          "\<lparr>pret = 1, pin_kq = True, pin_stdin = False,
            rd = ReadOk [\<lparr>wd = 1, mask = IN_CLOSE_WRITE\<rparr>, \<lparr>wd = 1, mask = IN_ATTRIB\<rparr>]\<rparr>"]
      pre nz lk m1 m2
    by simp
qed

subsection \<open>The lookup after registrations and invalidations\<close>

text \<open>
  Claim C3, as stated, fails for the sentinel. A file is registered (watch
  descriptor 1), then invalidated; the lookup of \<open>-1\<close> then finds this entry.
\<close>

theorem lookup_finds_invalidated_entry:
  "kevent_changes [\<lparr>fn = ''a.txt'', fd = 3\<rparr>]
     [(\<lparr>ident = 3, filter_k = EVFILT_VNODE, flags = EV_ADD OR EV_CLEAR,
        fflags = NOTE_DELETE OR NOTE_WRITE OR NOTE_EXTEND, data = 0, udata = Some 0\<rparr>, 1),
      (\<lparr>ident = 1, filter_k = EVFILT_VNODE, flags = EV_DELETE, fflags = 0, data = 0, udata = Some 0\<rparr>, 0)]
     = Inr [\<lparr>fn = ''a.txt'', fd = -1\<rparr>] \<and>
   file_by_descriptor [\<lparr>fn = ''a.txt'', fd = -1\<rparr>] (-1) = Some 0 \<and>
   file_by_descriptor [\<lparr>fn = ''a.txt'', fd = -1\<rparr>] (-1) \<noteq> None"
  by (simp add: kevent_change_def set_fd_def file_by_descriptor_def shim_consts)

text \<open>
  Claim C3, amended. After any sequence of registration requests the lookup of
  \<open>h\<close> returns the first registry entry whose \<open>fd\<close> is \<open>h\<close> at that moment, and
  null exactly when no entry holds \<open>h\<close>; with pairwise different handles every
  entry is found under its own handle. An invalidation stores \<open>-1\<close>: the old handle
  (if it was not \<open>-1\<close> and no other entry holds it) is not found any more, while the
  lookup of \<open>-1\<close> itself does find an invalidated entry.
\<close>

theorem lookup_after_changes:
  "(kevent_changes files0 cs = Inr files \<longrightarrow>
      (file_by_descriptor files h = Some i \<longleftrightarrow>
         i < length files \<and> fd (files ! i) = h \<and> (\<forall>k<i. fd (files ! k) \<noteq> h)) \<and>
      (file_by_descriptor files h = None \<longleftrightarrow> (\<forall>f\<in>set files. fd f \<noteq> h)) \<and>
      (distinct (map fd files) \<and> i < length files \<longrightarrow>
         file_by_descriptor files (fd (files ! i)) = Some i)) \<and>
   (filter_k kev = EVFILT_VNODE \<and> flags kev AND EV_DELETE \<noteq> 0 \<and> udata kev = Some j \<and>
    j < length files \<and> fd (files ! j) \<noteq> -1 \<and>
    (\<forall>k<length files. k \<noteq> j \<longrightarrow> fd (files ! k) \<noteq> fd (files ! j)) \<longrightarrow>
      kevent_change files kev r = Inr (files[j := (files ! j)\<lparr>fd := -1\<rparr>], 1) \<and>
      file_by_descriptor (files[j := (files ! j)\<lparr>fd := -1\<rparr>]) (fd (files ! j)) = None \<and>
      file_by_descriptor (files[j := (files ! j)\<lparr>fd := -1\<rparr>]) (-1) \<noteq> None)"
proof (intro conjI impI)
  show "file_by_descriptor files h = Some i \<longleftrightarrow>
         i < length files \<and> fd (files ! i) = h \<and> (\<forall>k<i. fd (files ! k) \<noteq> h)"
    by (rule file_by_descriptor_Some_iff)
  show "file_by_descriptor files h = None \<longleftrightarrow> (\<forall>f\<in>set files. fd f \<noteq> h)"
    by (rule file_by_descriptor_None_iff)
next
  assume d: "distinct (map fd files) \<and> i < length files"
  have "fd (files ! k) \<noteq> fd (files ! i)" if "k < i" for k
  proof -
    have "map fd files ! k \<noteq> map fd files ! i"
      using d that by (simp add: nth_eq_iff_index_eq del: nth_map)
    then show ?thesis using d that by simp
  qed
  then show "file_by_descriptor files (fd (files ! i)) = Some i"
    using d by (simp add: file_by_descriptor_Some_iff)
next
  assume a: "filter_k kev = EVFILT_VNODE \<and> flags kev AND EV_DELETE \<noteq> 0 \<and> udata kev = Some j \<and>
    j < length files \<and> fd (files ! j) \<noteq> -1 \<and>
    (\<forall>k<length files. k \<noteq> j \<longrightarrow> fd (files ! k) \<noteq> fd (files ! j))"
  let ?fs = "files[j := (files ! j)\<lparr>fd := -1\<rparr>]"
  show "kevent_change files kev r = Inr (?fs, 1)"
    using a by (simp add: kevent_change_def set_fd_def)
  have "\<forall>f\<in>set ?fs. fd f \<noteq> fd (files ! j)"
  proof
    fix f assume "f \<in> set ?fs"
    then obtain k where k: "k < length files" "f = ?fs ! k"
      by (auto simp add: in_set_conv_nth)
    show "fd f \<noteq> fd (files ! j)"
      using a k by (cases "k = j") (simp_all add: nth_list_update)
  qed
  then show "file_by_descriptor ?fs (fd (files ! j)) = None"
    by (simp add: file_by_descriptor_None_iff)
  have "?fs ! j \<in> set ?fs" using a by (simp add: nth_mem del: nth_list_update_eq)
  moreover have "fd (?fs ! j) = -1" using a by simp
  ultimately have "\<not> (\<forall>f\<in>set ?fs. fd f \<noteq> -1)" by blast
  then show "file_by_descriptor ?fs (-1) \<noteq> None"
    using file_by_descriptor_None_iff [of ?fs "-1"] by blast
qed


theorem lookup_after_changes_witness:
  "kevent_changes [\<lparr>fn = ''a.txt'', fd = 3\<rparr>, \<lparr>fn = ''b.txt'', fd = 4\<rparr>]
     [(\<lparr>ident = 3, filter_k = EVFILT_VNODE, flags = EV_ADD OR EV_CLEAR,
        fflags = NOTE_DELETE OR NOTE_WRITE OR NOTE_EXTEND, data = 0, udata = Some 0\<rparr>, 1),
      (\<lparr>ident = 4, filter_k = EVFILT_VNODE, flags = EV_ADD OR EV_CLEAR,
        fflags = NOTE_DELETE OR NOTE_WRITE OR NOTE_EXTEND, data = 0, udata = Some 1\<rparr>, 2)]
     = Inr [\<lparr>fn = ''a.txt'', fd = 1\<rparr>, \<lparr>fn = ''b.txt'', fd = 2\<rparr>] \<and>
   file_by_descriptor [\<lparr>fn = ''a.txt'', fd = 1\<rparr>, \<lparr>fn = ''b.txt'', fd = 2\<rparr>] 2 = Some 1 \<and>
   file_by_descriptor [\<lparr>fn = ''a.txt'', fd = 1\<rparr>, \<lparr>fn = ''b.txt'', fd = 2\<rparr>] 3 = None \<and>
   kevent_change [\<lparr>fn = ''a.txt'', fd = 1\<rparr>, \<lparr>fn = ''b.txt'', fd = 2\<rparr>]
      \<lparr>ident = 2, filter_k = EVFILT_VNODE, flags = EV_DELETE, fflags = 0, data = 0, udata = Some 1\<rparr> 0
     = Inr ([\<lparr>fn = ''a.txt'', fd = 1\<rparr>, \<lparr>fn = ''b.txt'', fd = -1\<rparr>], 1) \<and>
   file_by_descriptor [\<lparr>fn = ''a.txt'', fd = 1\<rparr>, \<lparr>fn = ''b.txt'', fd = -1\<rparr>] 2 = None \<and>
   file_by_descriptor [\<lparr>fn = ''a.txt'', fd = 1\<rparr>, \<lparr>fn = ''b.txt'', fd = -1\<rparr>] (-1) \<noteq> None"
proof -
  have c: "kevent_changes [\<lparr>fn = ''a.txt'', fd = 3\<rparr>, \<lparr>fn = ''b.txt'', fd = 4\<rparr>]
     [(\<lparr>ident = 3, filter_k = EVFILT_VNODE, flags = EV_ADD OR EV_CLEAR,
        fflags = NOTE_DELETE OR NOTE_WRITE OR NOTE_EXTEND, data = 0, udata = Some 0\<rparr>, 1),
      (\<lparr>ident = 4, filter_k = EVFILT_VNODE, flags = EV_ADD OR EV_CLEAR,
        fflags = NOTE_DELETE OR NOTE_WRITE OR NOTE_EXTEND, data = 0, udata = Some 1\<rparr>, 2)]
     = Inr [\<lparr>fn = ''a.txt'', fd = 1\<rparr>, \<lparr>fn = ''b.txt'', fd = 2\<rparr>]"
    by (simp add: kevent_change_def set_fd_def shim_consts)
  have k: "flags \<lparr>ident = 2, filter_k = EVFILT_VNODE, flags = EV_DELETE, fflags = 0, data = 0, udata = Some (1::nat)\<rparr>
             AND EV_DELETE \<noteq> 0"
    by (simp add: shim_consts)
  show ?thesis
    using lookup_after_changes
      [of "[\<lparr>fn = ''a.txt'', fd = 3\<rparr>, \<lparr>fn = ''b.txt'', fd = 4\<rparr>]"
          "[(\<lparr>ident = 3, filter_k = EVFILT_VNODE, flags = EV_ADD OR EV_CLEAR,
        fflags = NOTE_DELETE OR NOTE_WRITE OR NOTE_EXTEND, data = 0, udata = Some 0\<rparr>, 1),
      (\<lparr>ident = 4, filter_k = EVFILT_VNODE, flags = EV_ADD OR EV_CLEAR,
        fflags = NOTE_DELETE OR NOTE_WRITE OR NOTE_EXTEND, data = 0, udata = Some 1\<rparr>, 2)]"
          "[\<lparr>fn = ''a.txt'', fd = 1\<rparr>, \<lparr>fn = ''b.txt'', fd = 2\<rparr>]" 3 1
          "\<lparr>ident = 2, filter_k = EVFILT_VNODE, flags = EV_DELETE, fflags = 0, data = 0, udata = Some 1\<rparr>" 1 0]
      c k
    by (simp add: less_Suc_eq_0_disj)
qed

section \<open>Properties of \<open>entr.c\<close>\<close>

subsection \<open>The retry loop\<close>

lemma open_retry_step_fail:
  assumes "fst (sys_open E (n_open w)) = -1"
  shows "open_retry E (Suc m) i w = open_retry E m i (attempt_failed E i w)"
proof -
  obtain r eo where so: "sys_open E (n_open w) = (r, eo)" by (cases "sys_open E (n_open w)")
  have "usleep_call 100000
          ((set_errno eo (w\<lparr>n_open := Suc (n_open w), trace := trace w @ [SysOpen (fn (files_w w ! i))]\<rparr>))
             \<lparr>files_w := (files_w w)[i := (files_w w ! i)\<lparr>fd := -1\<rparr>]\<rparr>)
        = attempt_failed E i w"
    by (rule world.equality)
       (simp_all add: usleep_call_def set_errno_def attempt_failed_def so split: option.split)
  moreover have "files_w (set_errno eo w') = files_w w'" for w'
    by (simp add: set_errno_def split: option.split)
  ultimately show ?thesis
    using assms so by (simp add: open_call_def)
qed

lemma open_retry_step_ok:
  assumes "fst (sys_open E (n_open w)) \<noteq> -1"
  shows "open_retry E (Suc m) i w = attempt_ok E i w"
proof -
  obtain r eo where so: "sys_open E (n_open w) = (r, eo)" by (cases "sys_open E (n_open w)")
  have "(set_errno eo (w\<lparr>n_open := Suc (n_open w), trace := trace w @ [SysOpen (fn (files_w w ! i))]\<rparr>))
             \<lparr>files_w := (files_w w)[i := (files_w w ! i)\<lparr>fd := r\<rparr>]\<rparr>
        = attempt_ok E i w"
    by (rule world.equality)
       (simp_all add: set_errno_def attempt_ok_def so split: option.split)
  moreover have "files_w (set_errno eo w') = files_w w'" for w'
    by (simp add: set_errno_def split: option.split)
  ultimately show ?thesis
    using assms so by (simp add: open_call_def)
qed

lemma same_frame_refl: "same_frame i w w"
  by (simp add: same_frame_def)

lemma same_frame_trans: "same_frame i w w1 \<Longrightarrow> same_frame i w1 w2 \<Longrightarrow> same_frame i w w2"
  by (simp add: same_frame_def)

lemma map_fn_update: "map fn (fs[i := (fs ! i)\<lparr>fd := v\<rparr>]) = map fn fs"
proof (cases "i < length fs")
  case True
  then show ?thesis by (auto intro!: nth_equalityI simp add: nth_list_update)
next
  case False
  then show ?thesis by (simp add: list_update_beyond)
qed

lemma attempt_failed_frame: "same_frame i w (attempt_failed E i w)"
  by (simp add: same_frame_def attempt_failed_def map_fn_update)

lemma attempt_ok_frame: "same_frame i w (attempt_ok E i w)"
  by (simp add: same_frame_def attempt_ok_def map_fn_update)

lemma open_retry_frame: "same_frame i w (open_retry E m i w)"
proof (induction m arbitrary: w)
  case 0
  then show ?case by (simp add: same_frame_refl)
next
  case (Suc m)
  show ?case
  proof (cases "fst (sys_open E (n_open w)) = -1")
    case True
    have "same_frame i (attempt_failed E i w) (open_retry E m i (attempt_failed E i w))"
      by (rule Suc.IH)
    then show ?thesis
      using attempt_failed_frame same_frame_trans
      by (simp only: open_retry_step_fail [OF True]) blast
  next
    case False
    show ?thesis by (simp only: open_retry_step_ok [OF False] attempt_ok_frame)
  qed
qed

lemma open_retry_attempts: "n_open (open_retry E m i w) \<le> n_open w + m"
proof (induction m arbitrary: w)
  case 0
  then show ?case by simp
next
  case (Suc m)
  show ?case
  proof (cases "fst (sys_open E (n_open w)) = -1")
    case True
    have "n_open (open_retry E (Suc m) i w) = n_open (open_retry E m i (attempt_failed E i w))"
      by (simp only: open_retry_step_fail [OF True])
    also have "\<dots> \<le> n_open (attempt_failed E i w) + m" by (rule Suc.IH)
    also have "\<dots> = n_open w + Suc m" by (simp add: attempt_failed_def)
    finally show ?thesis .
  next
    case False
    show ?thesis by (simp only: open_retry_step_ok [OF False]) (simp add: attempt_ok_def)
  qed
qed

lemma same_frame_fn:
  assumes "same_frame i w w'" and "j < length (files_w w)"
  shows "fn (files_w w' ! j) = fn (files_w w ! j)"
proof -
  have l: "j < length (files_w w')" using assms by (simp add: same_frame_def)
  have "fn (files_w w' ! j) = map fn (files_w w') ! j" using l by simp
  also have "\<dots> = map fn (files_w w) ! j" using assms(1) by (simp only: same_frame_def)
  also have "\<dots> = fn (files_w w ! j)" using assms(2) by simp
  finally show ?thesis .
qed

lemma open_retry_all_fail:
  assumes "\<forall>j<m. fst (sys_open E (n_open w + j)) = -1" and "i < length (files_w w)" and "0 < m"
  shows "fd (files_w (open_retry E m i w) ! i) = -1 \<and>
         trace (open_retry E m i w) =
           trace w @ concat (replicate m [SysOpen (fn (files_w w ! i)), SysUsleep 100000]) \<and>
         n_open (open_retry E m i w) = n_open w + m \<and>
         (\<forall>e. snd (sys_open E (n_open w + m - 1)) = Some e \<longrightarrow> errno (open_retry E m i w) = e)"
  using assms
proof (induction m arbitrary: w)
  case 0
  then show ?case by simp
next
  case (Suc m)
  let ?w = "attempt_failed E i w"
  have f0: "fst (sys_open E (n_open w)) = -1" using Suc.prems(1) by force
  have step: "open_retry E (Suc m) i w = open_retry E m i ?w"
    by (rule open_retry_step_fail [OF f0])
  have nm: "fn (files_w ?w ! i) = fn (files_w w ! i)"
    using Suc.prems(2) by (simp add: attempt_failed_def)
  show ?case
  proof (cases m)
    case 0
    show ?thesis unfolding step using Suc.prems(2) 0
      by (simp add: attempt_failed_def)
  next
    case (Suc m')
    have "\<forall>j<m. fst (sys_open E (n_open ?w + j)) = -1"
    proof (intro allI impI)
      fix j assume "j < m"
      then have "Suc j < Suc m" by simp
      then have "fst (sys_open E (n_open w + Suc j)) = -1" using Suc.prems(1) by blast
      then show "fst (sys_open E (n_open ?w + j)) = -1" by (simp add: attempt_failed_def)
    qed
    moreover have "i < length (files_w ?w)" using Suc.prems(2) by (simp add: attempt_failed_def)
    moreover have "0 < m" using Suc by simp
    ultimately have ih: "fd (files_w (open_retry E m i ?w) ! i) = -1 \<and>
         trace (open_retry E m i ?w) =
           trace ?w @ concat (replicate m [SysOpen (fn (files_w ?w ! i)), SysUsleep 100000]) \<and>
         n_open (open_retry E m i ?w) = n_open ?w + m \<and>
         (\<forall>e. snd (sys_open E (n_open ?w + m - 1)) = Some e \<longrightarrow> errno (open_retry E m i ?w) = e)"
      by (rule Suc.IH)
    have n: "n_open ?w = Suc (n_open w)" and t: "trace ?w = trace w @ [SysOpen (fn (files_w w ! i)), SysUsleep 100000]"
      by (simp_all add: attempt_failed_def)
    show ?thesis
      unfolding step using ih by (simp only: nm n t) simp
  qed
qed

lemma open_retry_success:
  assumes "\<forall>j<k. fst (sys_open E (n_open w + j)) = -1"
    and "fst (sys_open E (n_open w + k)) \<noteq> -1" and "k < m" and "i < length (files_w w)"
  shows "fd (files_w (open_retry E m i w) ! i) = fst (sys_open E (n_open w + k)) \<and>
         trace (open_retry E m i w) =
           trace w @ concat (replicate k [SysOpen (fn (files_w w ! i)), SysUsleep 100000])
                   @ [SysOpen (fn (files_w w ! i))] \<and>
         n_open (open_retry E m i w) = n_open w + Suc k"
  using assms
proof (induction k arbitrary: w m)
  case 0
  then obtain m' where m: "m = Suc m'" by (cases m) auto
  have ok: "fst (sys_open E (n_open w)) \<noteq> -1" using 0 by simp
  show ?case unfolding m open_retry_step_ok [OF ok] using 0(4)
    by (simp add: attempt_ok_def)
next
  case (Suc k)
  then obtain m' where m: "m = Suc m'" by (cases m) auto
  let ?w = "attempt_failed E i w"
  have f0: "fst (sys_open E (n_open w)) = -1" using Suc.prems(1) by force
  have step: "open_retry E m i w = open_retry E m' i ?w"
    by (simp only: m open_retry_step_fail [OF f0])
  have n: "n_open ?w = Suc (n_open w)" and t: "trace ?w = trace w @ [SysOpen (fn (files_w w ! i)), SysUsleep 100000]"
    by (simp_all add: attempt_failed_def)
  have nm: "fn (files_w ?w ! i) = fn (files_w w ! i)"
    using Suc.prems(4) by (simp add: attempt_failed_def)
  have "\<forall>j<k. fst (sys_open E (n_open ?w + j)) = -1"
  proof (intro allI impI)
    fix j assume "j < k"
    then have "Suc j < Suc k" by simp
    then have "fst (sys_open E (n_open w + Suc j)) = -1" using Suc.prems(1) by blast
    then show "fst (sys_open E (n_open ?w + j)) = -1" by (simp add: n)
  qed
  moreover have "fst (sys_open E (n_open ?w + k)) \<noteq> -1" using Suc.prems(2) by (simp add: n)
  moreover have "k < m'" using Suc.prems(3) m by simp
  moreover have "i < length (files_w ?w)" using Suc.prems(4) by (simp add: attempt_failed_def)
  ultimately have ih: "fd (files_w (open_retry E m' i ?w) ! i) = fst (sys_open E (n_open ?w + k)) \<and>
         trace (open_retry E m' i ?w) =
           trace ?w @ concat (replicate k [SysOpen (fn (files_w ?w ! i)), SysUsleep 100000])
                   @ [SysOpen (fn (files_w ?w ! i))] \<and>
         n_open (open_retry E m' i ?w) = n_open ?w + Suc k"
    by (rule Suc.IH)
  show ?case unfolding step using ih by (simp only: nm n t) simp
qed

lemma watch_file_all_fail:
  assumes "\<forall>j<20. fst (sys_open E (n_open w + j)) = -1" and "i < length (files_w w)"
  shows "watch_file E i w =
           Inl (Exit (exit_status (errno (open_retry E 20 i w))) (cannot_open_msg (fn (files_w w ! i))),
                open_retry E 20 i w)"
proof -
  have "fd (files_w (open_retry E 20 i w) ! i) = -1"
    using open_retry_all_fail [of 20 E w i] assms by simp
  moreover have "fn (files_w (open_retry E 20 i w) ! i) = fn (files_w w ! i)"
    using same_frame_fn [OF open_retry_frame assms(2)] .
  ultimately show ?thesis by (simp add: watch_file_def Let_def)
qed

text \<open>
  Claim C6, as stated, fails in the exit status. The path does not exist: each of
  the 20 calls of \<open>open\<close> fails with \<open>ENOENT\<close>, and \<open>err(errno, ...)\<close> ends the
  process with the status 2, not 1.
\<close>

theorem watch_file_gives_up_with_errno:
  "\<exists>w1. watch_file
           \<lparr>sys_open = (\<lambda>k. (-1, Some ENOENT)), sys_close = (\<lambda>k. (0, None)),
            sys_kevent_add = (\<lambda>k. (0, None)), sys_kevent_wait = (\<lambda>k. Some []),
            sys_kevent_drain = (\<lambda>k. [])\<rparr>
           0
           \<lparr>files_w = [\<lparr>fn = ''a.txt'', fd = 0\<rparr>], fifo = \<lparr>fn = [], fd = 0\<rparr>, errno = 0, trace = [],
            n_open = 0, n_close = 0, n_add = 0, n_wait = 0, n_drain = 0\<rparr>
         = Inl (Exit 2 (cannot_open_msg ''a.txt''), w1) \<and>
        n_open w1 = 20 \<and> (2::int) \<noteq> 1"
proof -
  let ?E = "\<lparr>sys_open = (\<lambda>k::nat. (-1::int, Some ENOENT)), sys_close = (\<lambda>k. (0, None)),
            sys_kevent_add = (\<lambda>k. (0, None)), sys_kevent_wait = (\<lambda>k. Some []),
            sys_kevent_drain = (\<lambda>k. [])\<rparr>"
  let ?w = "\<lparr>files_w = [\<lparr>fn = ''a.txt'', fd = 0\<rparr>], fifo = \<lparr>fn = [], fd = 0\<rparr>, errno = 0, trace = [],
            n_open = 0, n_close = 0, n_add = 0, n_wait = 0, n_drain = 0\<rparr>"
  have f: "\<forall>j<20. fst (sys_open ?E (n_open ?w + j)) = -1" by simp
  have i: "0 < length (files_w ?w)" by simp
  have a: "n_open (open_retry ?E 20 0 ?w) = n_open ?w + 20 \<and>
           (\<forall>e. snd (sys_open ?E (n_open ?w + 20 - 1)) = Some e \<longrightarrow> errno (open_retry ?E 20 0 ?w) = e)"
    using open_retry_all_fail [OF f i] by simp
  then have e: "errno (open_retry ?E 20 0 ?w) = 2" and n: "n_open (open_retry ?E 20 0 ?w) = 20"
    by (simp_all add: ENOENT_def)
  have "watch_file ?E 0 ?w =
          Inl (Exit (exit_status 2) (cannot_open_msg ''a.txt''), open_retry ?E 20 0 ?w)"
    using watch_file_all_fail [OF f i] e by simp
  then show ?thesis using n by (simp add: exit_status_def)
qed

text \<open>
  Claim C6, amended. \<open>watch_file\<close> calls \<open>open\<close> at most 20 times. After each
  failure it sleeps 100000 microseconds; the first success ends the loop, and the
  descriptor it returned is stored in the entry. If all 20 calls fail the process
  ends through \<open>err\<close> with the message that names the path and with the low eight
  bits of the \<open>errno\<close> of the last \<open>open\<close> as exit status, which for an \<open>errno\<close>
  between 1 and 255 is that \<open>errno\<close> and is not 0.
\<close>

theorem watch_file_retries:
  "i < length (files_w w) \<longrightarrow>
     n_open (open_retry E 20 i w) \<le> n_open w + 20 \<and>
     ((\<forall>j<k. fst (sys_open E (n_open w + j)) = -1) \<and>
      fst (sys_open E (n_open w + k)) \<noteq> -1 \<and> k < 20 \<longrightarrow>
        fd (files_w (open_retry E 20 i w) ! i) = fst (sys_open E (n_open w + k)) \<and>
        n_open (open_retry E 20 i w) = n_open w + Suc k \<and>
        trace (open_retry E 20 i w) =
          trace w @ concat (replicate k [SysOpen (fn (files_w w ! i)), SysUsleep 100000])
                  @ [SysOpen (fn (files_w w ! i))]) \<and>
     ((\<forall>j<20. fst (sys_open E (n_open w + j)) = -1) \<and>
      snd (sys_open E (n_open w + 19)) = Some e \<longrightarrow>
        (\<exists>w1. watch_file E i w =
                 Inl (Exit (exit_status e) (cannot_open_msg (fn (files_w w ! i))), w1) \<and>
               trace w1 =
                 trace w @ concat (replicate 20 [SysOpen (fn (files_w w ! i)), SysUsleep 100000])) \<and>
        (0 < e \<and> e < 256 \<longrightarrow> exit_status e = e \<and> exit_status e \<noteq> 0))"
proof (intro impI conjI)
  show "n_open (open_retry E 20 i w) \<le> n_open w + 20" by (rule open_retry_attempts)
next
  assume i: "i < length (files_w w)"
    and a: "(\<forall>j<k. fst (sys_open E (n_open w + j)) = -1) \<and>
            fst (sys_open E (n_open w + k)) \<noteq> -1 \<and> k < 20"
  have s: "fd (files_w (open_retry E 20 i w) ! i) = fst (sys_open E (n_open w + k)) \<and>
         trace (open_retry E 20 i w) =
           trace w @ concat (replicate k [SysOpen (fn (files_w w ! i)), SysUsleep 100000])
                   @ [SysOpen (fn (files_w w ! i))] \<and>
         n_open (open_retry E 20 i w) = n_open w + Suc k"
    using open_retry_success [of k E w 20 i] a i by blast
  show "fd (files_w (open_retry E 20 i w) ! i) = fst (sys_open E (n_open w + k))"
    using s by blast
  show "n_open (open_retry E 20 i w) = n_open w + Suc k" using s by blast
  show "trace (open_retry E 20 i w) =
          trace w @ concat (replicate k [SysOpen (fn (files_w w ! i)), SysUsleep 100000])
                  @ [SysOpen (fn (files_w w ! i))]"
    using s by blast
next
  assume i: "i < length (files_w w)"
    and a: "(\<forall>j<20. fst (sys_open E (n_open w + j)) = -1) \<and>
      snd (sys_open E (n_open w + 19)) = Some e"
  have f: "fd (files_w (open_retry E 20 i w) ! i) = -1 \<and>
         trace (open_retry E 20 i w) =
           trace w @ concat (replicate 20 [SysOpen (fn (files_w w ! i)), SysUsleep 100000]) \<and>
         n_open (open_retry E 20 i w) = n_open w + 20 \<and>
         (\<forall>e. snd (sys_open E (n_open w + 20 - 1)) = Some e \<longrightarrow> errno (open_retry E 20 i w) = e)"
    using open_retry_all_fail [of 20 E w i] a i by simp
  have "n_open w + 20 - 1 = n_open w + 19" by arith
  then have "snd (sys_open E (n_open w + 20 - 1)) = Some e" using a by (simp only:)
  then have "errno (open_retry E 20 i w) = e" using f by blast
  then have "watch_file E i w =
           Inl (Exit (exit_status e) (cannot_open_msg (fn (files_w w ! i))), open_retry E 20 i w)"
    using watch_file_all_fail [of E w i] a i by simp
  then show "\<exists>w1. watch_file E i w =
                 Inl (Exit (exit_status e) (cannot_open_msg (fn (files_w w ! i))), w1) \<and>
               trace w1 =
                 trace w @ concat (replicate 20 [SysOpen (fn (files_w w ! i)), SysUsleep 100000])"
    using f by blast
next
  assume "0 < e \<and> e < 256"
  then show "exit_status e = e" by (simp add: exit_status_def)
next
  assume "0 < e \<and> e < 256"
  then show "exit_status e \<noteq> 0" by (simp add: exit_status_def)
qed

theorem watch_file_retries_witness:
  "0 < length (files_w \<lparr>files_w = [\<lparr>fn = ''a.txt'', fd = 0\<rparr>], fifo = \<lparr>fn = [], fd = 0\<rparr>, errno = 0,
                        trace = [], n_open = 0, n_close = 0, n_add = 0, n_wait = 0, n_drain = 0\<rparr>) \<and>
   fd (files_w (open_retry
        \<lparr>sys_open = (\<lambda>j. if j < 2 then (-1, Some ENOENT) else (7, None)), sys_close = (\<lambda>k. (0, None)),
         sys_kevent_add = (\<lambda>k. (0, None)), sys_kevent_wait = (\<lambda>k. Some []),
         sys_kevent_drain = (\<lambda>k. [])\<rparr> 20 0
        \<lparr>files_w = [\<lparr>fn = ''a.txt'', fd = 0\<rparr>], fifo = \<lparr>fn = [], fd = 0\<rparr>, errno = 0,
         trace = [], n_open = 0, n_close = 0, n_add = 0, n_wait = 0, n_drain = 0\<rparr>) ! 0) = 7 \<and>
   trace (open_retry
        \<lparr>sys_open = (\<lambda>j. if j < 2 then (-1, Some ENOENT) else (7, None)), sys_close = (\<lambda>k. (0, None)),
         sys_kevent_add = (\<lambda>k. (0, None)), sys_kevent_wait = (\<lambda>k. Some []),
         sys_kevent_drain = (\<lambda>k. [])\<rparr> 20 0
        \<lparr>files_w = [\<lparr>fn = ''a.txt'', fd = 0\<rparr>], fifo = \<lparr>fn = [], fd = 0\<rparr>, errno = 0,
         trace = [], n_open = 0, n_close = 0, n_add = 0, n_wait = 0, n_drain = 0\<rparr>)
     = [SysOpen ''a.txt'', SysUsleep 100000, SysOpen ''a.txt'', SysUsleep 100000, SysOpen ''a.txt''] \<and>
   (\<exists>w1. watch_file
        \<lparr>sys_open = (\<lambda>j. (-1, Some ENOENT)), sys_close = (\<lambda>k. (0, None)),
         sys_kevent_add = (\<lambda>k. (0, None)), sys_kevent_wait = (\<lambda>k. Some []),
         sys_kevent_drain = (\<lambda>k. [])\<rparr> 0
        \<lparr>files_w = [\<lparr>fn = ''a.txt'', fd = 0\<rparr>], fifo = \<lparr>fn = [], fd = 0\<rparr>, errno = 0,
         trace = [], n_open = 0, n_close = 0, n_add = 0, n_wait = 0, n_drain = 0\<rparr>
      = Inl (Exit 2 (cannot_open_msg ''a.txt''), w1) \<and>
      trace w1 = concat (replicate 20 [SysOpen ''a.txt'', SysUsleep 100000]))"
proof -
  let ?w = "\<lparr>files_w = [\<lparr>fn = ''a.txt'', fd = 0\<rparr>], fifo = \<lparr>fn = [], fd = 0\<rparr>, errno = 0,
         trace = [], n_open = 0, n_close = 0, n_add = 0, n_wait = 0, n_drain = 0\<rparr>"
  let ?E1 = "\<lparr>sys_open = (\<lambda>j::nat. if j < 2 then (-1::int, Some ENOENT) else (7, None)), sys_close = (\<lambda>k. (0, None)),
         sys_kevent_add = (\<lambda>k. (0, None)), sys_kevent_wait = (\<lambda>k. Some []),
         sys_kevent_drain = (\<lambda>k. [])\<rparr>"
  let ?E2 = "\<lparr>sys_open = (\<lambda>j::nat. (-1::int, Some ENOENT)), sys_close = (\<lambda>k. (0, None)),
         sys_kevent_add = (\<lambda>k. (0, None)), sys_kevent_wait = (\<lambda>k. Some []),
         sys_kevent_drain = (\<lambda>k. [])\<rparr>"
  have i: "0 < length (files_w ?w)" by simp
  have h1: "(\<forall>j<2. fst (sys_open ?E1 (n_open ?w + j)) = -1) \<and>
      fst (sys_open ?E1 (n_open ?w + 2)) \<noteq> -1 \<and> (2::nat) < 20"
    by simp
  have h2: "(\<forall>j<20. fst (sys_open ?E2 (n_open ?w + j)) = -1) \<and>
      snd (sys_open ?E2 (n_open ?w + 19)) = Some 2"
    by (simp add: ENOENT_def)
  have r: "concat (replicate 2 [SysOpen ''a.txt'', SysUsleep 100000]) =
             [SysOpen ''a.txt'', SysUsleep 100000, SysOpen ''a.txt'', SysUsleep 100000]"
    by (simp add: numeral_2_eq_2)
  show ?thesis
    using watch_file_retries [of 0 ?w ?E1 2 2] watch_file_retries [of 0 ?w ?E2 0 2] i h1 h2 r
    by (simp add: exit_status_def)
qed

subsection \<open>A deleted file\<close>

lemma deliver_exact:
  assumes "qualifying (fflags ev)" and "udata ev = Some i" and "i < length (files_w w)"
  shows "\<exists>evList' w'.
           deliver E ev evList w = Inr (evList', w') \<and> files_w w' = files_w w \<and>
           trace w' = trace w @
             (if fd (fifo w) = 0 then [RunScript, KeventDrain]
              else [SysWrite (fd (fifo w))
                      (take (strlen (cstr (fn (files_w w ! i)))) (cstr (fn (files_w w ! i)))),
                    SysWrite (fd (fifo w)) [CHR 0x0A, CHR 0x00],
                    SysFsync (fd (fifo w))])"
proof (cases "fd (fifo w) = 0")
  case True
  let ?w' = "w\<lparr>n_drain := Suc (n_drain w), trace := trace w @ [RunScript, KeventDrain]\<rparr>"
  have "deliver E ev evList w = Inr (store_events (sys_kevent_drain E (n_drain w)) evList, ?w')"
    using assms(1) True by (simp add: deliver_def kevent_drain_call_def run_script_def)
  moreover have "trace ?w' = trace w @ [RunScript, KeventDrain]" by simp
  moreover have "files_w ?w' = files_w w" by simp
  ultimately show ?thesis using True by auto
next
  case False
  let ?name = "cstr (fn (files_w w ! i))"
  let ?acts = "[SysWrite (fd (fifo w)) (take (strlen ?name) ?name),
                SysWrite (fd (fifo w)) [CHR 0x0A, CHR 0x00], SysFsync (fd (fifo w))]"
  let ?w' = "w\<lparr>trace := trace w @ ?acts\<rparr>"
  have "take 2 (cstr [CHR 0x0A]) = [CHR 0x0A, CHR 0x00]"
    by (simp add: cstr_def)
  then have "deliver E ev evList w = Inr (evList, ?w')"
    using assms False by (simp add: deliver_def write_call_def fsync_call_def Let_def)
  moreover have "trace ?w' = trace w @ ?acts" by simp
  moreover have "files_w ?w' = files_w w" by simp
  ultimately show ?thesis using False by auto
qed

lemma delete_qualifies: "ff AND NOTE_DELETE \<noteq> 0 \<Longrightarrow> qualifying ff"
  by (simp add: qualifying_def)

lemma watch_file_success:
  assumes fails: "\<forall>j<k. fst (sys_open E (n_open w + j)) = -1"
    and ok: "fst (sys_open E (n_open w + k)) \<noteq> -1" and k: "k < 20"
    and i: "i < length (files_w w)"
    and reg: "fst (sys_kevent_add E (n_add w)) \<noteq> -1"
  shows "\<exists>w1. watch_file E i w = Inr w1 \<and>
           fd (files_w w1 ! i) = fst (sys_open E (n_open w + k)) \<and>
           length (files_w w1) = length (files_w w) \<and>
           fifo w1 = fifo w \<and> fn (files_w w1 ! i) = fn (files_w w ! i) \<and>
           trace w1 = trace w @ concat (replicate k [SysOpen (fn (files_w w ! i)), SysUsleep 100000])
                        @ [SysOpen (fn (files_w w ! i)),
                           KeventAdd (fst (sys_open E (n_open w + k))) i]"
proof -
  let ?o = "open_retry E 20 i w"
  let ?r = "fst (sys_open E (n_open w + k))"
  have s: "fd (files_w ?o ! i) = ?r \<and>
         trace ?o = trace w @ concat (replicate k [SysOpen (fn (files_w w ! i)), SysUsleep 100000])
                   @ [SysOpen (fn (files_w w ! i))] \<and>
         n_open ?o = n_open w + Suc k"
    using open_retry_success [OF fails ok k i] .
  have fr: "same_frame i w ?o" by (rule open_retry_frame)
  then have na: "n_add ?o = n_add w" and len: "length (files_w ?o) = length (files_w w)"
    and ff: "fifo ?o = fifo w"
    by (simp_all add: same_frame_def)
  have nm: "fn (files_w ?o ! i) = fn (files_w w ! i)"
    using same_frame_fn [OF fr i] .
  obtain r eo where ka: "sys_kevent_add E (n_add w) = (r, eo)" by (cases "sys_kevent_add E (n_add w)")
  then have r: "r \<noteq> -1" using reg by simp
  let ?w1 = "set_errno eo (?o\<lparr>n_add := Suc (n_add ?o), trace := trace ?o @ [KeventAdd ?r i]\<rparr>)"
  have fw: "files_w ?w1 = files_w ?o" and tw: "trace ?w1 = trace ?o @ [KeventAdd ?r i]"
    and fw1: "fifo ?w1 = fifo ?o"
    by (simp_all add: set_errno_def split: option.split)
  have "watch_file E i w = Inr ?w1"
    using s ok r ka na by (simp add: watch_file_def Let_def kevent_add_call_def)
  moreover have "fd (files_w ?w1 ! i) = ?r" using s fw by simp
  moreover have "length (files_w ?w1) = length (files_w w)" using fw len by simp
  moreover have "fifo ?w1 = fifo w" using fw1 ff by simp
  moreover have "fn (files_w ?w1 ! i) = fn (files_w w ! i)" using fw nm by simp
  moreover have "trace ?w1 = trace w @ concat (replicate k [SysOpen (fn (files_w w ! i)), SysUsleep 100000])
                        @ [SysOpen (fn (files_w w ! i)), KeventAdd ?r i]"
    using s tw by simp
  ultimately show ?thesis by blast
qed

text \<open>
  Claim C5, as stated, fails in "a new value". The descriptor 5 of the deleted file
  is closed, and \<open>open\<close>, which returns the lowest free descriptor, returns 5 again:
  the file is closed and watched again exactly once, before the command runs, but
  its \<open>fd\<close> has the value it had before.
\<close>

theorem reopened_handle_may_be_the_old_value:
  "(case dispatch_event
           \<lparr>sys_open = (\<lambda>k. (5, None)), sys_close = (\<lambda>k. (0, None)),
            sys_kevent_add = (\<lambda>k. (0, None)), sys_kevent_wait = (\<lambda>k. Some []),
            sys_kevent_drain = (\<lambda>k. [])\<rparr>
           \<lparr>ident = 5, filter_k = EVFILT_VNODE, flags = 0, fflags = NOTE_DELETE, data = 0, udata = Some 0\<rparr>
           (replicate 32 stdin_event)
           \<lparr>files_w = [\<lparr>fn = ''b.txt'', fd = 5\<rparr>], fifo = \<lparr>fn = [], fd = 0\<rparr>, errno = 0, trace = [],
            n_open = 0, n_close = 0, n_add = 0, n_wait = 0, n_drain = 0\<rparr> of
      Inl x \<Rightarrow> False
    | Inr (evList', w') \<Rightarrow>
        trace w' = [SysClose 5, SysOpen ''b.txt'', KeventAdd 5 0, RunScript, KeventDrain] \<and>
        fd (files_w w' ! 0) = 5)"
  by code_simp

text \<open>
  Claim C5, amended. With the \<open>kqueue(2)\<close> backend that \<open>entr.c\<close> is written
  against, for an event with \<open>NOTE_DELETE\<close> whose tag is a registry entry, when
  \<open>close\<close> succeeds, \<open>open\<close> succeeds within 20 calls and the registration does not
  fail: the loop body closes the old descriptor once, opens the path again (with a
  sleep after each failed call), registers the new descriptor once, and stores in
  the entry the value \<open>open\<close> returned, which need not differ from the old one. All
  of this comes before the delivery for the same event, and the delivery follows
  exactly once: in command mode one run of the command and one draining call, in
  FIFO mode the write of the path, the write of the two bytes and the \<open>fsync\<close>.
\<close>

theorem delete_reopens_before_delivery:
  assumes del: "fflags ev AND NOTE_DELETE \<noteq> 0"
    and tag: "udata ev = Some i" and i: "i < length (files_w w)"
    and cl: "fst (sys_close E (n_close w)) \<noteq> -1"
    and fails: "\<forall>j<k. fst (sys_open E (n_open w + j)) = -1"
    and ok: "fst (sys_open E (n_open w + k)) \<noteq> -1" and k: "k < 20"
    and reg: "fst (sys_kevent_add E (n_add w)) \<noteq> -1"
  shows "\<exists>w1 evList' w2.
           reopen_deleted E ev w = Inr w1 \<and>
           trace w1 = trace w @ [SysClose (fd (files_w w ! i))]
                        @ concat (replicate k [SysOpen (fn (files_w w ! i)), SysUsleep 100000])
                        @ [SysOpen (fn (files_w w ! i)),
                           KeventAdd (fst (sys_open E (n_open w + k))) i] \<and>
           fd (files_w w1 ! i) = fst (sys_open E (n_open w + k)) \<and>
           dispatch_event E ev evList w = Inr (evList', w2) \<and>
           trace w2 = trace w1 @
             (if fd (fifo w) = 0 then [RunScript, KeventDrain]
              else [SysWrite (fd (fifo w))
                      (take (strlen (cstr (fn (files_w w ! i)))) (cstr (fn (files_w w ! i)))),
                    SysWrite (fd (fifo w)) [CHR 0x0A, CHR 0x00],
                    SysFsync (fd (fifo w))]) \<and>
           fd (files_w w2 ! i) = fst (sys_open E (n_open w + k))"
proof -
  obtain r eo where sc: "sys_close E (n_close w) = (r, eo)" by (cases "sys_close E (n_close w)")
  then have r: "r \<noteq> -1" using cl by simp
  let ?c = "set_errno eo (w\<lparr>n_close := Suc (n_close w), trace := trace w @ [SysClose (fd (files_w w ! i))]\<rparr>)"
  have c: "files_w ?c = files_w w" "n_open ?c = n_open w" "n_add ?c = n_add w"
    "trace ?c = trace w @ [SysClose (fd (files_w w ! i))]" "fifo ?c = fifo w"
    by (simp_all add: set_errno_def split: option.split)
  have reo: "reopen_deleted E ev w = watch_file E i ?c"
    using del tag i sc r by (simp add: reopen_deleted_def close_call_def)
  have "\<exists>w1. watch_file E i ?c = Inr w1 \<and>
           fd (files_w w1 ! i) = fst (sys_open E (n_open w + k)) \<and>
           length (files_w w1) = length (files_w w) \<and>
           fifo w1 = fifo w \<and> fn (files_w w1 ! i) = fn (files_w w ! i) \<and>
           trace w1 = (trace w @ [SysClose (fd (files_w w ! i))])
                        @ concat (replicate k [SysOpen (fn (files_w w ! i)), SysUsleep 100000])
                        @ [SysOpen (fn (files_w w ! i)),
                           KeventAdd (fst (sys_open E (n_open w + k))) i]"
    using watch_file_success [of k E ?c i, unfolded c] fails ok k i reg by blast
  then obtain w1 where w1: "watch_file E i ?c = Inr w1"
    "fd (files_w w1 ! i) = fst (sys_open E (n_open w + k))"
    "length (files_w w1) = length (files_w w)"
    "trace w1 = trace w @ [SysClose (fd (files_w w ! i))]
                        @ concat (replicate k [SysOpen (fn (files_w w ! i)), SysUsleep 100000])
                        @ [SysOpen (fn (files_w w ! i)),
                           KeventAdd (fst (sys_open E (n_open w + k))) i]"
    "fifo w1 = fifo w" "fn (files_w w1 ! i) = fn (files_w w ! i)"
    by auto
  have i1: "i < length (files_w w1)" using i w1(3) by simp
  have q: "qualifying (fflags ev)" by (rule delete_qualifies [OF del])
  obtain evList' w2 where d: "deliver E ev evList w1 = Inr (evList', w2)"
    "files_w w2 = files_w w1"
    "trace w2 = trace w1 @
             (if fd (fifo w1) = 0 then [RunScript, KeventDrain]
              else [SysWrite (fd (fifo w1))
                      (take (strlen (cstr (fn (files_w w1 ! i)))) (cstr (fn (files_w w1 ! i)))),
                    SysWrite (fd (fifo w1)) [CHR 0x0A, CHR 0x00],
                    SysFsync (fd (fifo w1))])"
    using deliver_exact [OF q tag i1, of E evList] by blast
  have "dispatch_event E ev evList w = Inr (evList', w2)"
    using reo w1(1) d(1) by (simp add: dispatch_event_def)
  moreover have "reopen_deleted E ev w = Inr w1" using reo w1(1) by simp
  moreover have "fd (files_w w2 ! i) = fst (sys_open E (n_open w + k))" using d(2) w1(2) by simp
  moreover have "trace w2 = trace w1 @
             (if fd (fifo w) = 0 then [RunScript, KeventDrain]
              else [SysWrite (fd (fifo w))
                      (take (strlen (cstr (fn (files_w w ! i)))) (cstr (fn (files_w w ! i)))),
                    SysWrite (fd (fifo w)) [CHR 0x0A, CHR 0x00],
                    SysFsync (fd (fifo w))])"
    using d(3) by (simp only: w1(5) w1(6))
  ultimately show ?thesis using w1(2,4) by blast
qed

theorem delete_reopens_before_delivery_witness:
  "fflags \<lparr>ident = 5, filter_k = EVFILT_VNODE, flags = 0, fflags = NOTE_DELETE, data = 0, udata = Some (0::nat)\<rparr>
     AND NOTE_DELETE \<noteq> 0 \<and>
   (\<exists>w1 evList' w2.
      reopen_deleted
           \<lparr>sys_open = (\<lambda>j. if j < 1 then (-1, Some ENOENT) else (7, None)), sys_close = (\<lambda>k. (0, None)),
            sys_kevent_add = (\<lambda>k. (0, None)), sys_kevent_wait = (\<lambda>k. Some []),
            sys_kevent_drain = (\<lambda>k. [])\<rparr>
           \<lparr>ident = 5, filter_k = EVFILT_VNODE, flags = 0, fflags = NOTE_DELETE, data = 0, udata = Some 0\<rparr>
           \<lparr>files_w = [\<lparr>fn = ''b.txt'', fd = 5\<rparr>], fifo = \<lparr>fn = [], fd = 0\<rparr>, errno = 0, trace = [],
            n_open = 0, n_close = 0, n_add = 0, n_wait = 0, n_drain = 0\<rparr> = Inr w1 \<and>
      trace w1 = [SysClose 5, SysOpen ''b.txt'', SysUsleep 100000, SysOpen ''b.txt'', KeventAdd 7 0] \<and>
      fd (files_w w1 ! 0) = 7 \<and>
      dispatch_event
           \<lparr>sys_open = (\<lambda>j. if j < 1 then (-1, Some ENOENT) else (7, None)), sys_close = (\<lambda>k. (0, None)),
            sys_kevent_add = (\<lambda>k. (0, None)), sys_kevent_wait = (\<lambda>k. Some []),
            sys_kevent_drain = (\<lambda>k. [])\<rparr>
           \<lparr>ident = 5, filter_k = EVFILT_VNODE, flags = 0, fflags = NOTE_DELETE, data = 0, udata = Some 0\<rparr>
           [stdin_event, stdin_event]
           \<lparr>files_w = [\<lparr>fn = ''b.txt'', fd = 5\<rparr>], fifo = \<lparr>fn = [], fd = 0\<rparr>, errno = 0, trace = [],
            n_open = 0, n_close = 0, n_add = 0, n_wait = 0, n_drain = 0\<rparr> = Inr (evList', w2) \<and>
      trace w2 = trace w1 @ [RunScript, KeventDrain] \<and>
      fd (files_w w2 ! 0) = 7)"
proof -
  let ?E = "\<lparr>sys_open = (\<lambda>j::nat. if j < 1 then (-1::int, Some ENOENT) else (7, None)), sys_close = (\<lambda>k. (0, None)),
            sys_kevent_add = (\<lambda>k. (0, None)), sys_kevent_wait = (\<lambda>k. Some []),
            sys_kevent_drain = (\<lambda>k. [])\<rparr>"
  let ?ev = "\<lparr>ident = 5, filter_k = EVFILT_VNODE, flags = 0, fflags = NOTE_DELETE, data = 0, udata = Some (0::nat)\<rparr>"
  let ?w = "\<lparr>files_w = [\<lparr>fn = ''b.txt'', fd = 5\<rparr>], fifo = \<lparr>fn = [], fd = 0\<rparr>, errno = 0, trace = [],
            n_open = 0, n_close = 0, n_add = 0, n_wait = 0, n_drain = 0\<rparr>"
  have del: "fflags ?ev AND NOTE_DELETE \<noteq> 0" by (simp add: NOTE_DELETE_def)
  have tag: "udata ?ev = Some 0" and i: "0 < length (files_w ?w)" by simp_all
  have cl: "fst (sys_close ?E (n_close ?w)) \<noteq> -1" by simp
  have fails: "\<forall>j<1. fst (sys_open ?E (n_open ?w + j)) = -1" by simp
  have ok: "fst (sys_open ?E (n_open ?w + 1)) \<noteq> -1" and k: "(1::nat) < 20" by simp_all
  have reg: "fst (sys_kevent_add ?E (n_add ?w)) \<noteq> -1" by simp
  show ?thesis
    using delete_reopens_before_delivery [OF del tag i cl fails ok k reg, of "[stdin_event, stdin_event]"] del
    by simp
qed

subsection \<open>Delivery\<close>

text \<open>
  Claim C1. In command mode three files change at once: the wait returns three
  \<open>NOTE_WRITE\<close> events. After the command has run for the first of them, the
  draining call finds nothing and leaves \<open>evList\<close> as it is, its result is thrown
  away, \<open>nev\<close> is still 3, and the loop goes on to the second and third event: the
  command runs three times in the one pass.
\<close>

theorem three_events_three_runs:
  "(case watch_loop_once
           \<lparr>sys_open = (\<lambda>k. (7, None)), sys_close = (\<lambda>k. (0, None)),
            sys_kevent_add = (\<lambda>k. (0, None)),
            sys_kevent_wait = (\<lambda>k. Some
              [\<lparr>ident = 3, filter_k = EVFILT_VNODE, flags = 0, fflags = NOTE_WRITE, data = 0, udata = Some 0\<rparr>,
               \<lparr>ident = 4, filter_k = EVFILT_VNODE, flags = 0, fflags = NOTE_WRITE, data = 0, udata = Some 1\<rparr>,
               \<lparr>ident = 5, filter_k = EVFILT_VNODE, flags = 0, fflags = NOTE_WRITE, data = 0, udata = Some 2\<rparr>]),
            sys_kevent_drain = (\<lambda>k. [])\<rparr>
           (replicate 32 stdin_event)
           \<lparr>files_w = [\<lparr>fn = ''a.txt'', fd = 3\<rparr>, \<lparr>fn = ''b.txt'', fd = 4\<rparr>, \<lparr>fn = ''c.txt'', fd = 5\<rparr>],
            fifo = \<lparr>fn = [], fd = 0\<rparr>, errno = 0, trace = [],
            n_open = 0, n_close = 0, n_add = 0, n_wait = 0, n_drain = 0\<rparr> of
      Inl x \<Rightarrow> False
    | Inr (evList, w) \<Rightarrow>
        trace w = [KeventWait, RunScript, KeventDrain, RunScript, KeventDrain, RunScript, KeventDrain] \<and>
        run_count (trace w) = 3)"
  by code_simp

text \<open>
  Claim C2. In FIFO mode the same three events give three writes of the path, each
  followed by \<open>write(fifo.fd, "\n", 2)\<close>, which sends two bytes: the newline and the
  zero byte that ends the literal. The command is never run, and every line is
  followed by \<open>fsync\<close>; but the reader of the FIFO finds a zero byte after each
  newline.
\<close>

theorem fifo_line_ends_with_zero_byte:
  "(case watch_loop_once
           \<lparr>sys_open = (\<lambda>k. (7, None)), sys_close = (\<lambda>k. (0, None)),
            sys_kevent_add = (\<lambda>k. (0, None)),
            sys_kevent_wait = (\<lambda>k. Some
              [\<lparr>ident = 3, filter_k = EVFILT_VNODE, flags = 0, fflags = NOTE_WRITE, data = 0, udata = Some 0\<rparr>,
               \<lparr>ident = 4, filter_k = EVFILT_VNODE, flags = 0, fflags = NOTE_WRITE, data = 0, udata = Some 1\<rparr>,
               \<lparr>ident = 5, filter_k = EVFILT_VNODE, flags = 0, fflags = NOTE_WRITE, data = 0, udata = Some 2\<rparr>]),
            sys_kevent_drain = (\<lambda>k. [])\<rparr>
           (replicate 32 stdin_event)
           \<lparr>files_w = [\<lparr>fn = ''a.txt'', fd = 3\<rparr>, \<lparr>fn = ''b.txt'', fd = 4\<rparr>, \<lparr>fn = ''c.txt'', fd = 5\<rparr>],
            fifo = \<lparr>fn = ''notify'', fd = 6\<rparr>, errno = 0, trace = [],
            n_open = 0, n_close = 0, n_add = 0, n_wait = 0, n_drain = 0\<rparr> of
      Inl x \<Rightarrow> False
    | Inr (evList, w) \<Rightarrow>
        trace w = [KeventWait,
                   SysWrite 6 ''a.txt'', SysWrite 6 [CHR 0x0A, CHR 0x00], SysFsync 6,
                   SysWrite 6 ''b.txt'', SysWrite 6 [CHR 0x0A, CHR 0x00], SysFsync 6,
                   SysWrite 6 ''c.txt'', SysWrite 6 [CHR 0x0A, CHR 0x00], SysFsync 6] \<and>
        run_count (trace w) = 0 \<and>
        written 6 (trace w) =
          ''a.txt'' @ [CHR 0x0A, CHR 0x00] @ ''b.txt'' @ [CHR 0x0A, CHR 0x00] @ ''c.txt'' @ [CHR 0x0A, CHR 0x00] \<and>
        written 6 (trace w) \<noteq> ''a.txt'' @ [CHR 0x0A] @ ''b.txt'' @ [CHR 0x0A] @ ''c.txt'' @ [CHR 0x0A])"
  by code_simp

end
